theory Spec2Isabelle
  imports Main
begin

section \<open>Data model of the file-processing store\<close>

text \<open>
  The store is the Redux slice \<open>fileProcessing\<close> (createSlice in the slice file); the queue
  engine is the hook \<open>useFileProcessor\<close>. A reducer mutates an Immer draft; here every
  reducer takes the store and returns the new one. Instants read with
  \<open>new Date().toISOString()\<close> are passed in as arguments.
\<close>

type_synonym instant = string
type_synonym file_id = string

text \<open>
  \<open>FILE_STATUS\<close>. The slice file has the eight statuses of the three stages; the hook and
  the page also read \<open>FILE_STATUS.REVIEW_PENDING\<close> and \<open>FILE_STATUS.APPROVED\<close>
  (\<open>'review_pending'\<close>, \<open>'approved'\<close>), and the review gate rejects into \<open>REJECTED\<close>.
\<close>

datatype FILE_STATUS =
    PENDING | TRANSCRIBING | TRANSCRIBED | AI_PROCESSING | AI_PROCESSED
  | REVIEW_PENDING | APPROVED | REJECTED
  | GENERATING_SPEECH | COMPLETED | FAILED

record raw_file =
  raw_name :: string
  raw_size :: nat
  raw_type :: string

record transcription_result =
  text_t :: string
  duration :: nat
  processing_time :: nat

record ai_result =
  processed_text :: string
  original_text :: "string option"
  prompt_used :: "string option"
  model :: string
  tokens_used :: nat

record final_audio =
  url :: string
  blob :: string

record timestamps_r =
  added :: instant
  transcriptionStart :: "instant option"
  transcriptionEnd :: "instant option"
  aiProcessingStart :: "instant option"
  aiProcessingEnd :: "instant option"
  speechGenerationStart :: "instant option"
  speechGenerationEnd :: "instant option"
  completedAt :: "instant option"

record error_entry =
  stage :: "string option"
  message :: string
  timestamp :: instant

record file_record =
  id_f :: file_id
  originalFile :: raw_file
  name :: string
  size_f :: nat
  type_f :: string
  status :: FILE_STATUS
  progress :: nat
  transcription :: "transcription_result option"
  editableTranscription :: "string option"
  aiResult :: "ai_result option"
  editableAIResult :: "string option"
  finalAudio :: "final_audio option"
  timestamps :: timestamps_r
  errors :: "error_entry list"

record voice_settings =
  voice :: string
  speed :: nat
  format :: string
  tts_model :: string

record global_settings =
  aiPrompt :: string
  gs_selectedPromptType :: string
  gs_customPrompt :: "string option"
  gs_voiceSettings :: voice_settings
  batchReviewMode :: bool

record statistics_r =
  totalFiles :: nat
  completedFiles :: nat
  failedFiles :: nat
  totalProcessingTime :: nat

record store =
  files :: "file_record list"
  processingQueue :: "file_id list"
  currentlyProcessing :: "file_id option"
  completedJobs :: "(string \<times> instant) list"
  globalSettings :: global_settings
  statistics :: statistics_r
  reviewQueue :: "file_id list"
  approvedFiles :: "file_id list"

definition initialState :: store where
  "initialState =
     \<lparr> files = [], processingQueue = [], currentlyProcessing = None, completedJobs = [],
       globalSettings =
         \<lparr> aiPrompt = ''Please rewrite this text to make it more professional and well-structured while maintaining the original meaning.'',
           gs_selectedPromptType = ''professional'', gs_customPrompt = None,
           gs_voiceSettings = \<lparr> voice = ''af_heart'', speed = 1, format = ''mp3'', tts_model = ''kokoro'' \<rparr>,
           batchReviewMode = False \<rparr>,
       statistics = \<lparr> totalFiles = 0, completedFiles = 0, failedFiles = 0, totalProcessingTime = 0 \<rparr>,
       reviewQueue = [], approvedFiles = [] \<rparr>"

subsection \<open>JavaScript helpers\<close>

text \<open>\<open>a || b\<close> on a possibly undefined string: the empty string and undefined are falsy.\<close>

definition truthy :: "string option \<Rightarrow> bool" where
  "truthy a = (case a of None \<Rightarrow> False | Some x \<Rightarrow> x \<noteq> [])"

definition or_js :: "string option \<Rightarrow> string option \<Rightarrow> string option" where
  "or_js a b = (if truthy a then a else b)"

text \<open>\<open>state.files.find(f => f.id === fileId)\<close>: the first record with that id, or undefined.\<close>

definition find_file :: "file_id \<Rightarrow> file_record list \<Rightarrow> file_record option" where
  "find_file fid fs = List.find (\<lambda>f. id_f f = fid) fs"

text \<open>Assignments to the fields of the record that \<open>find\<close> returned change that element in place.\<close>

fun update_file :: "file_id \<Rightarrow> (file_record \<Rightarrow> file_record) \<Rightarrow> file_record list \<Rightarrow> file_record list" where
  "update_file fid g [] = []"
| "update_file fid g (f # fs) = (if id_f f = fid then g f # fs else f # update_file fid g fs)"

text \<open>
  The shape shared by the record-targeting reducers:
  \<open>const file = state.files.find(...); if (file) { ...mutate file...; ...mutate state... }\<close>.
\<close>

definition with_file ::
  "file_id \<Rightarrow> (file_record \<Rightarrow> file_record) \<Rightarrow> (store \<Rightarrow> store) \<Rightarrow> store \<Rightarrow> store" where
  "with_file fid g h s =
     (case find_file fid (files s) of
        None \<Rightarrow> s
      | Some file \<Rightarrow> h (s\<lparr>files := update_file fid g (files s)\<rparr>))"

text \<open>Decimal digits of a number, for the template string \<open>`${Date.now()}_${index}`\<close>.\<close>

fun string_of_nat :: "nat \<Rightarrow> string" where
  "string_of_nat n =
     (if n < 10 then [char_of (48 + n)]
      else string_of_nat (n div 10) @ [char_of (48 + n mod 10)])"

section \<open>Reducers of the slice\<close>

definition new_file :: "nat \<Rightarrow> instant \<Rightarrow> nat \<Rightarrow> raw_file \<Rightarrow> file_record" where
  "new_file now_ms now index file =
     \<lparr> id_f = string_of_nat now_ms @ ''_'' @ string_of_nat index,
       originalFile = file, name = raw_name file, size_f = raw_size file, type_f = raw_type file,
       status = PENDING, progress = 0,
       transcription = None, editableTranscription = None,
       aiResult = None, editableAIResult = None, finalAudio = None,
       timestamps = \<lparr> added = now, transcriptionStart = None, transcriptionEnd = None,
                      aiProcessingStart = None, aiProcessingEnd = None,
                      speechGenerationStart = None, speechGenerationEnd = None,
                      completedAt = None \<rparr>,
       errors = [] \<rparr>"

definition addFiles :: "raw_file list \<Rightarrow> nat \<Rightarrow> instant \<Rightarrow> store \<Rightarrow> store" where
  "addFiles payload now_ms now s =
     (let newFiles = map (\<lambda>(index, file). new_file now_ms now index file)
                         (zip [0 ..< length payload] payload)
      in s\<lparr> files := files s @ newFiles,
            statistics := (statistics s)\<lparr> totalFiles := totalFiles (statistics s) + length newFiles \<rparr> \<rparr>)"

definition removeFile :: "file_id \<Rightarrow> store \<Rightarrow> store" where
  "removeFile fileId s =
     s\<lparr> files := filter (\<lambda>f. id_f f \<noteq> fileId) (files s),
        processingQueue := filter (\<lambda>i. i \<noteq> fileId) (processingQueue s),
        currentlyProcessing :=
          (if currentlyProcessing s = Some fileId then None else currentlyProcessing s) \<rparr>"

definition clearAllFiles :: "store \<Rightarrow> store" where
  "clearAllFiles s =
     s\<lparr> files := [], processingQueue := [], currentlyProcessing := None,
        statistics := \<lparr> totalFiles = 0, completedFiles = 0, failedFiles = 0, totalProcessingTime = 0 \<rparr> \<rparr>"

text \<open>
  \<open>addToQueue\<close>: the payload is an id or an array of ids; every id of the payload that the
  queue does not hold yet is pushed (the test reads the queue as it is before the push).
\<close>

definition addToQueue :: "file_id list \<Rightarrow> store \<Rightarrow> store" where
  "addToQueue fileIds s =
     s\<lparr> processingQueue :=
          processingQueue s @ filter (\<lambda>i. i \<notin> set (processingQueue s)) fileIds \<rparr>"

definition removeFromQueue :: "file_id \<Rightarrow> store \<Rightarrow> store" where
  "removeFromQueue fileId s =
     s\<lparr> processingQueue := filter (\<lambda>i. i \<noteq> fileId) (processingQueue s) \<rparr>"

definition setCurrentlyProcessing :: "file_id option \<Rightarrow> store \<Rightarrow> store" where
  "setCurrentlyProcessing payload s = s\<lparr> currentlyProcessing := payload \<rparr>"

definition updateFileStatus :: "file_id \<Rightarrow> FILE_STATUS \<Rightarrow> nat option \<Rightarrow> store \<Rightarrow> store" where
  "updateFileStatus fileId st prog s =
     with_file fileId
       (\<lambda>f. case prog of
               None \<Rightarrow> f\<lparr> status := st \<rparr>
             | Some p \<Rightarrow> f\<lparr> status := st, progress := p \<rparr>)
       (\<lambda>s. s) s"


definition updateFileTranscription ::
  "file_id \<Rightarrow> transcription_result \<Rightarrow> string option \<Rightarrow> store \<Rightarrow> store" where
  "updateFileTranscription fileId tr editableText s =
     with_file fileId
       (\<lambda>f. f\<lparr> transcription := Some tr,
               editableTranscription := or_js editableText (Some (text_t tr)) \<rparr>)
       (\<lambda>s. s) s"

definition updateFileAIResult ::
  "file_id \<Rightarrow> ai_result \<Rightarrow> string option \<Rightarrow> store \<Rightarrow> store" where
  "updateFileAIResult fileId r editableText s =
     with_file fileId
       (\<lambda>f. f\<lparr> aiResult := Some r,
               editableAIResult := or_js editableText (Some (processed_text r)) \<rparr>)
       (\<lambda>s. s) s"

definition updateFileFinalAudio :: "file_id \<Rightarrow> string \<Rightarrow> string \<Rightarrow> store \<Rightarrow> store" where
  "updateFileFinalAudio fileId audioUrl audioBlob s =
     with_file fileId
       (\<lambda>f. f\<lparr> finalAudio := Some \<lparr> url = audioUrl, blob = audioBlob \<rparr> \<rparr>)
       (\<lambda>s. s) s"

definition addCompletedJob :: "string \<Rightarrow> instant \<Rightarrow> store \<Rightarrow> store" where
  "addCompletedJob payload now s =
     s\<lparr> completedJobs := (payload, now) # completedJobs s,
        statistics := (statistics s)\<lparr> completedFiles := completedFiles (statistics s) + 1 \<rparr> \<rparr>"

text \<open>\<open>markFileCompleted\<close> acts only when the record exists and is not COMPLETED yet.\<close>

definition markFileCompleted :: "file_id \<Rightarrow> instant \<Rightarrow> store \<Rightarrow> store" where
  "markFileCompleted fileId now s =
     (case find_file fileId (files s) of
        None \<Rightarrow> s
      | Some file \<Rightarrow>
          if status file \<noteq> COMPLETED then
            s\<lparr> files := update_file fileId
                   (\<lambda>f. f\<lparr> status := COMPLETED, progress := 100,
                           timestamps := (timestamps f)\<lparr> completedAt := Some now \<rparr> \<rparr>) (files s),
               statistics := (statistics s)\<lparr> completedFiles := completedFiles (statistics s) + 1 \<rparr> \<rparr>
          else s)"

definition count_failed :: "store \<Rightarrow> store" where
  "count_failed s = s\<lparr> statistics := (statistics s)\<lparr> failedFiles := failedFiles (statistics s) + 1 \<rparr> \<rparr>"

definition count_completed :: "store \<Rightarrow> store" where
  "count_completed s =
     s\<lparr> statistics := (statistics s)\<lparr> completedFiles := completedFiles (statistics s) + 1 \<rparr> \<rparr>"

text \<open>\<open>markFileFailed\<close> pushes an error entry that has a message and a timestamp, and no stage.\<close>

definition markFileFailed :: "file_id \<Rightarrow> string \<Rightarrow> instant \<Rightarrow> store \<Rightarrow> store" where
  "markFileFailed fileId err now s =
     with_file fileId
       (\<lambda>f. f\<lparr> status := FAILED,
               errors := errors f @ [\<lparr> stage = None, message = err, timestamp = now \<rparr>] \<rparr>)
       count_failed s"

subsection \<open>The handlers of the three stage thunks (extraReducers)\<close>

definition transcribeFile_pending :: "file_id \<Rightarrow> instant \<Rightarrow> store \<Rightarrow> store" where
  "transcribeFile_pending fileId now s =
     with_file fileId
       (\<lambda>f. f\<lparr> status := TRANSCRIBING,
               timestamps := (timestamps f)\<lparr> transcriptionStart := Some now \<rparr> \<rparr>)
       (\<lambda>s. s) s"

definition transcribeFile_fulfilled :: "file_id \<Rightarrow> transcription_result \<Rightarrow> instant \<Rightarrow> store \<Rightarrow> store" where
  "transcribeFile_fulfilled fileId result now s =
     with_file fileId
       (\<lambda>f. f\<lparr> status := TRANSCRIBED,
               transcription := Some result,
               editableTranscription := Some (text_t result),
               timestamps := (timestamps f)\<lparr> transcriptionEnd := Some now \<rparr>,
               progress := 33 \<rparr>)
       (\<lambda>s. s) s"

definition transcribeFile_rejected :: "file_id \<Rightarrow> string \<Rightarrow> instant \<Rightarrow> store \<Rightarrow> store" where
  "transcribeFile_rejected fileId err now s =
     with_file fileId
       (\<lambda>f. f\<lparr> status := FAILED,
               errors := errors f @ [\<lparr> stage = Some ''transcription'', message = err, timestamp = now \<rparr>] \<rparr>)
       count_failed s"

definition processWithAI_pending :: "file_id \<Rightarrow> instant \<Rightarrow> store \<Rightarrow> store" where
  "processWithAI_pending fileId now s =
     with_file fileId
       (\<lambda>f. f\<lparr> status := AI_PROCESSING,
               timestamps := (timestamps f)\<lparr> aiProcessingStart := Some now \<rparr> \<rparr>)
       (\<lambda>s. s) s"

definition processWithAI_fulfilled :: "file_id \<Rightarrow> ai_result \<Rightarrow> instant \<Rightarrow> store \<Rightarrow> store" where
  "processWithAI_fulfilled fileId result now s =
     with_file fileId
       (\<lambda>f. f\<lparr> status := AI_PROCESSED,
               aiResult := Some result,
               editableAIResult := Some (processed_text result),
               timestamps := (timestamps f)\<lparr> aiProcessingEnd := Some now \<rparr>,
               progress := 66 \<rparr>)
       (\<lambda>s. s) s"

definition processWithAI_rejected :: "file_id \<Rightarrow> string \<Rightarrow> instant \<Rightarrow> store \<Rightarrow> store" where
  "processWithAI_rejected fileId err now s =
     with_file fileId
       (\<lambda>f. f\<lparr> status := FAILED,
               errors := errors f @ [\<lparr> stage = Some ''ai_processing'', message = err, timestamp = now \<rparr>] \<rparr>)
       count_failed s"

definition generateSpeech_pending :: "file_id \<Rightarrow> instant \<Rightarrow> store \<Rightarrow> store" where
  "generateSpeech_pending fileId now s =
     with_file fileId
       (\<lambda>f. f\<lparr> status := GENERATING_SPEECH,
               timestamps := (timestamps f)\<lparr> speechGenerationStart := Some now \<rparr> \<rparr>)
       (\<lambda>s. s) s"

definition generateSpeech_fulfilled :: "file_id \<Rightarrow> string \<Rightarrow> string \<Rightarrow> instant \<Rightarrow> store \<Rightarrow> store" where
  "generateSpeech_fulfilled fileId audioUrl audioBlob now s =
     with_file fileId
       (\<lambda>f. f\<lparr> status := COMPLETED,
               finalAudio := Some \<lparr> url = audioUrl, blob = audioBlob \<rparr>,
               timestamps := (timestamps f)\<lparr> speechGenerationEnd := Some now \<rparr>,
               progress := 100 \<rparr>)
       count_completed s"

definition generateSpeech_rejected :: "file_id \<Rightarrow> string \<Rightarrow> instant \<Rightarrow> store \<Rightarrow> store" where
  "generateSpeech_rejected fileId err now s =
     with_file fileId
       (\<lambda>f. f\<lparr> status := FAILED,
               errors := errors f @ [\<lparr> stage = Some ''speech_generation'', message = err, timestamp = now \<rparr>] \<rparr>)
       count_failed s"


subsection \<open>Actions and the reducer\<close>

text \<open>
  One constructor per action the slice handles. An action whose reducer reads the clock
  carries the instant it reads.
\<close>

datatype action =
    AddFiles "raw_file list" nat instant
  | RemoveFile file_id
  | ClearAllFiles
  | AddToQueue "file_id list"
  | RemoveFromQueue file_id
  | SetCurrentlyProcessing "file_id option"
  | UpdateFileStatus file_id FILE_STATUS "nat option"
  | UpdateFileTranscription file_id transcription_result "string option"
  | UpdateFileAIResult file_id ai_result "string option"
  | UpdateFileFinalAudio file_id string string
  | AddCompletedJob string instant
  | MarkFileCompleted file_id instant
  | MarkFileFailed file_id string instant
  | TranscribeFile_pending file_id instant
  | TranscribeFile_fulfilled file_id transcription_result instant
  | TranscribeFile_rejected file_id string instant
  | ProcessWithAI_pending file_id instant
  | ProcessWithAI_fulfilled file_id ai_result instant
  | ProcessWithAI_rejected file_id string instant
  | GenerateSpeech_pending file_id instant
  | GenerateSpeech_fulfilled file_id string string instant
  | GenerateSpeech_rejected file_id string instant

fun fileProcessingReducer :: "action \<Rightarrow> store \<Rightarrow> store" where
  "fileProcessingReducer (AddFiles payload now_ms now) s = addFiles payload now_ms now s"
| "fileProcessingReducer (RemoveFile fid) s = removeFile fid s"
| "fileProcessingReducer ClearAllFiles s = clearAllFiles s"
| "fileProcessingReducer (AddToQueue ids) s = addToQueue ids s"
| "fileProcessingReducer (RemoveFromQueue fid) s = removeFromQueue fid s"
| "fileProcessingReducer (SetCurrentlyProcessing p) s = setCurrentlyProcessing p s"
| "fileProcessingReducer (UpdateFileStatus fid st prog) s = updateFileStatus fid st prog s"
| "fileProcessingReducer (UpdateFileTranscription fid tr et) s = updateFileTranscription fid tr et s"
| "fileProcessingReducer (UpdateFileAIResult fid r et) s = updateFileAIResult fid r et s"
| "fileProcessingReducer (UpdateFileFinalAudio fid au ab) s = updateFileFinalAudio fid au ab s"
| "fileProcessingReducer (AddCompletedJob job now) s = addCompletedJob job now s"
| "fileProcessingReducer (MarkFileCompleted fid now) s = markFileCompleted fid now s"
| "fileProcessingReducer (MarkFileFailed fid err now) s = markFileFailed fid err now s"
| "fileProcessingReducer (TranscribeFile_pending fid now) s = transcribeFile_pending fid now s"
| "fileProcessingReducer (TranscribeFile_fulfilled fid r now) s = transcribeFile_fulfilled fid r now s"
| "fileProcessingReducer (TranscribeFile_rejected fid err now) s = transcribeFile_rejected fid err now s"
| "fileProcessingReducer (ProcessWithAI_pending fid now) s = processWithAI_pending fid now s"
| "fileProcessingReducer (ProcessWithAI_fulfilled fid r now) s = processWithAI_fulfilled fid r now s"
| "fileProcessingReducer (ProcessWithAI_rejected fid err now) s = processWithAI_rejected fid err now s"
| "fileProcessingReducer (GenerateSpeech_pending fid now) s = generateSpeech_pending fid now s"
| "fileProcessingReducer (GenerateSpeech_fulfilled fid au ab now) s = generateSpeech_fulfilled fid au ab now s"
| "fileProcessingReducer (GenerateSpeech_rejected fid err now) s = generateSpeech_rejected fid err now s"

text \<open>The store after a sequence of dispatches, and every store on the way.\<close>

fun dispatch_all :: "action list \<Rightarrow> store \<Rightarrow> store" where
  "dispatch_all [] s = s"
| "dispatch_all (a # as) s = dispatch_all as (fileProcessingReducer a s)"

fun states_of :: "action list \<Rightarrow> store \<Rightarrow> store list" where
  "states_of [] s = []"
| "states_of (a # as) s = fileProcessingReducer a s # states_of as (fileProcessingReducer a s)"

section \<open>The stage thunks\<close>

text \<open>
  A thunk made by \<open>createAsyncThunk\<close> dispatches its \<open>pending\<close> action, awaits the remote
  call, and dispatches \<open>fulfilled\<close> with the returned payload or, after \<open>rejectWithValue\<close>,
  \<open>rejected\<close> with that payload. \<open>.unwrap()\<close> on the dispatch then returns the fulfilled
  payload or throws the rejected payload \<open>{ fileId, error }\<close>, an object with no
  \<open>message\<close> property. The remote call's answer is an argument: \<open>Inl\<close> the message of the
  error caught by the payload creator, \<open>Inr\<close> the response.
\<close>

datatype thrown =
    RejectedValue file_id string
  | JsError string

record completion =
  content :: "string option"
  total_tokens :: "nat option"

definition transcribeFile ::
  "file_id \<Rightarrow> (string + transcription_result) \<Rightarrow> instant \<Rightarrow> instant \<Rightarrow> action list \<times> thrown option" where
  "transcribeFile fileId response t0 t1 =
     (case response of
        Inr result \<Rightarrow> ([TranscribeFile_pending fileId t0, TranscribeFile_fulfilled fileId result t1], None)
      | Inl err \<Rightarrow> ([TranscribeFile_pending fileId t0, TranscribeFile_rejected fileId err t1],
                    Some (RejectedValue fileId err)))"

text \<open>
  The result the rewrite thunk builds from a completion:
  \<open>completion.choices[0]?.message?.content || ''\<close> and \<open>completion.usage?.total_tokens || 0\<close>.
\<close>

definition rewrite_of :: "string option \<Rightarrow> string option \<Rightarrow> completion \<Rightarrow> ai_result" where
  "rewrite_of text prompt c =
     \<lparr> processed_text = (case content c of Some x \<Rightarrow> x | None \<Rightarrow> []),
       original_text = text,
       prompt_used = prompt,
       model = ''gpt-3.5-turbo'',
       tokens_used = (case total_tokens c of Some n \<Rightarrow> n | None \<Rightarrow> 0) \<rparr>"

definition processWithAI ::
  "file_id \<Rightarrow> string option \<Rightarrow> string option \<Rightarrow> string option \<Rightarrow> (string + completion)
     \<Rightarrow> instant \<Rightarrow> instant \<Rightarrow> action list \<times> thrown option" where
  "processWithAI fileId text prompt apiKey response t0 t1 =
     (case response of
        Inr c \<Rightarrow>
          (let result = rewrite_of text prompt c
           in ([ProcessWithAI_pending fileId t0, ProcessWithAI_fulfilled fileId result t1], None))
      | Inl err \<Rightarrow> ([ProcessWithAI_pending fileId t0, ProcessWithAI_rejected fileId err t1],
                    Some (RejectedValue fileId err)))"

definition generateSpeech ::
  "file_id \<Rightarrow> string option \<Rightarrow> voice_settings \<Rightarrow> (string + final_audio)
     \<Rightarrow> instant \<Rightarrow> instant \<Rightarrow> action list \<times> thrown option" where
  "generateSpeech fileId text vs response t0 t1 =
     (case response of
        Inr a \<Rightarrow> ([GenerateSpeech_pending fileId t0, GenerateSpeech_fulfilled fileId (url a) (blob a) t1], None)
      | Inl err \<Rightarrow> ([GenerateSpeech_pending fileId t0, GenerateSpeech_rejected fileId err t1],
                    Some (RejectedValue fileId err)))"

section \<open>The queue engine (useFileProcessor)\<close>

record ai_settings =
  selectedPromptType :: string
  customPrompt :: string
  prompts :: "(string \<times> string) list"
  openaiApiKey :: string

record settings =
  aiSettings :: ai_settings
  voiceSettings :: voice_settings

text \<open>
  What a run of the engine meets outside the store: the build-time key
  \<open>import.meta.env.VITE_OPENAI_API_KEY\<close>, the answers of the three remote services, and
  the clock: \<open>clock e 0\<close> and \<open>clock e 1\<close> are the instants read by the \<open>pending\<close> handler
  and by the \<open>fulfilled\<close> or \<open>rejected\<close> handler of the transcription, 2 and 3 those of
  the rewrite, 4 and 5 those of the speech generation, 6 the one read by \<open>markFileFailed\<close>.
\<close>

record env =
  VITE_OPENAI_API_KEY :: "string option"
  transcribe_response :: "string + transcription_result"
  completion_response :: "string + completion"
  speech_response :: "string + final_audio"
  clock :: "nat \<Rightarrow> instant"

text \<open>
  The message of the TypeError that reading a property of \<open>undefined\<close> or \<open>null\<close> throws;
  its wording is the JavaScript engine's.
\<close>

definition type_error :: string where
  "type_error = ''Cannot read properties of undefined''"

text \<open>The catch block: \<open>error.message || 'Unknown error occurred'\<close>.\<close>

definition catch_message :: "thrown \<Rightarrow> string" where
  "catch_message err =
     (case err of
        RejectedValue fid e \<Rightarrow> ''Unknown error occurred''
      | JsError m \<Rightarrow> (if m \<noteq> [] then m else ''Unknown error occurred''))"

text \<open>Step 1, on the record read before the run started.\<close>

definition step_transcription :: "env \<Rightarrow> file_id \<Rightarrow> file_record \<Rightarrow> action list \<times> thrown option" where
  "step_transcription e nextFileId file =
     (if status file = PENDING
      then transcribeFile nextFileId (transcribe_response e) (clock e 0) (clock e 1)
      else ([], None))"

text \<open>Step 2, on the record read afresh from the store.\<close>

definition step_ai :: "settings \<Rightarrow> env \<Rightarrow> file_id \<Rightarrow> store \<Rightarrow> action list \<times> thrown option" where
  "step_ai cs e nextFileId s =
     (case find_file nextFileId (files s) of
        None \<Rightarrow> ([], None)
      | Some freshFile \<Rightarrow>
          if status freshFile = TRANSCRIBED then
            (let apiKey = or_js (Some (openaiApiKey (aiSettings cs))) (VITE_OPENAI_API_KEY e) in
             if \<not> truthy apiKey then ([], Some (JsError ''No OpenAI API key available''))
             else if \<not> truthy (editableTranscription freshFile) \<and> transcription freshFile = None
             then ([], Some (JsError type_error))
             else processWithAI nextFileId
                    (or_js (editableTranscription freshFile) (map_option text_t (transcription freshFile)))
                    (or_js (Some (customPrompt (aiSettings cs)))
                           (map_of (prompts (aiSettings cs)) (selectedPromptType (aiSettings cs))))
                    apiKey (completion_response e) (clock e 2) (clock e 3))
          else ([], None))"

text \<open>
  Steps 3 and 4, on the record read afresh again. A record that is gone makes
  \<open>finalFile.status\<close> throw. The review branch clears the slot, removes the id from the
  queue and returns.
\<close>

definition step_speech :: "settings \<Rightarrow> env \<Rightarrow> file_id \<Rightarrow> store \<Rightarrow> action list \<times> thrown option" where
  "step_speech cs e nextFileId s =
     (case find_file nextFileId (files s) of
        None \<Rightarrow> ([], Some (JsError type_error))
      | Some finalFile \<Rightarrow>
          if batchReviewMode (globalSettings s) \<and> status finalFile = REVIEW_PENDING
          then ([SetCurrentlyProcessing None, RemoveFromQueue nextFileId], None)
          else if status finalFile = APPROVED
                  \<or> (\<not> batchReviewMode (globalSettings s) \<and> status finalFile = AI_PROCESSED)
          then (if \<not> truthy (editableAIResult finalFile) \<and> aiResult finalFile = None
                then ([], Some (JsError type_error))
                else generateSpeech nextFileId
                       (or_js (editableAIResult finalFile) (map_option processed_text (aiResult finalFile)))
                       (voiceSettings cs) (speech_response e) (clock e 4) (clock e 5))
          else ([], None))"

text \<open>
  \<open>processNextInQueue\<close>: the actions one run dispatches, in order. The run does nothing
  when the slot is occupied or the queue is empty; it only removes the head when no record
  has that id, or when the record waits for review in review mode. Otherwise it occupies
  the slot, runs the steps (a throw skips the remaining ones), marks the file failed in the
  catch block, and always ends by removing the id from the queue and clearing the slot.
  The flag \<open>processingRef\<close> lets no second run start before a run has ended.
\<close>

definition processNextInQueue :: "settings \<Rightarrow> env \<Rightarrow> store \<Rightarrow> action list" where
  "processNextInQueue cs e s =
     (if truthy (currentlyProcessing s) \<or> processingQueue s = [] then []
      else
        let nextFileId = hd (processingQueue s) in
        case find_file nextFileId (files s) of
          None \<Rightarrow> [RemoveFromQueue nextFileId]
        | Some file \<Rightarrow>
            if batchReviewMode (globalSettings s) \<and> status file = REVIEW_PENDING
            then [RemoveFromQueue nextFileId]
            else
              let a0 = [SetCurrentlyProcessing (Some nextFileId)];
                  r1 = step_transcription e nextFileId file;
                  s1 = dispatch_all (a0 @ fst r1) s;
                  r2 = (if snd r1 = None then step_ai cs e nextFileId s1 else ([], snd r1));
                  s2 = dispatch_all (fst r2) s1;
                  r3 = (if snd r2 = None then step_speech cs e nextFileId s2 else ([], snd r2));
                  a4 = (case snd r3 of
                          None \<Rightarrow> []
                        | Some err \<Rightarrow> [MarkFileFailed nextFileId (catch_message err) (clock e 6)])
              in a0 @ fst r1 @ fst r2 @ fst r3 @ a4
                 @ [RemoveFromQueue nextFileId, SetCurrentlyProcessing None])"

subsection \<open>The other operations of the hook\<close>

definition eligible :: "FILE_STATUS \<Rightarrow> bool" where
  "eligible st = (st = PENDING \<or> st = TRANSCRIBED \<or> st = AI_PROCESSED \<or> st = APPROVED)"

text \<open>
  \<open>startBatchProcessing\<close> throws when no id passes the status filter; otherwise it
  dispatches \<open>addToQueue\<close> for every valid id that the queue it was rendered with does not
  hold, and returns the number of valid ids.
\<close>

definition is_valid_id :: "store \<Rightarrow> file_id \<Rightarrow> bool" where
  "is_valid_id s i =
     (case find_file i (files s) of
        None \<Rightarrow> False
      | Some file \<Rightarrow> eligible (status file))"

definition startBatchProcessing :: "file_id list \<Rightarrow> store \<Rightarrow> string + (nat \<times> store)" where
  "startBatchProcessing fileIds s =
     (let validFileIds = filter (is_valid_id s) fileIds
      in if validFileIds = [] then Inl ''No valid files to process''
         else Inr (length validFileIds,
                   dispatch_all
                     (map (\<lambda>fileId. AddToQueue [fileId])
                          (filter (\<lambda>fileId. fileId \<notin> set (processingQueue s)) validFileIds)) s))"

definition retryFailedFiles :: "store \<Rightarrow> nat \<times> store" where
  "retryFailedFiles s =
     (let failedFiles = map id_f (filter (\<lambda>f. status f = FAILED) (files s))
      in (length failedFiles,
          dispatch_all
            (concat (map (\<lambda>fileId. [UpdateFileStatus fileId PENDING (Some 0), AddToQueue [fileId]])
                         failedFiles)) s))"

text \<open>
  \<open>reprocessFile\<close>: throws before any dispatch when the record or the key is missing;
  otherwise it runs the rewrite thunk alone, with the editable transcript (or the raw one)
  and the prompt of the slice's global settings, and rethrows a rejection.
\<close>

definition reprocessFile :: "settings \<Rightarrow> env \<Rightarrow> file_id \<Rightarrow> store \<Rightarrow> action list \<times> thrown option" where
  "reprocessFile cs e fileId s =
     (case find_file fileId (files s) of
        None \<Rightarrow> ([], Some (JsError ''File not found''))
      | Some file \<Rightarrow>
          (let apiKey = or_js (Some (openaiApiKey (aiSettings cs))) (VITE_OPENAI_API_KEY e) in
           if \<not> truthy apiKey then ([], Some (JsError ''No OpenAI API key available''))
           else processWithAI fileId
                  (or_js (editableTranscription file) (map_option text_t (transcription file)))
                  (or_js (gs_customPrompt (globalSettings s)) (Some (aiPrompt (globalSettings s))))
                  apiKey (completion_response e) (clock e 0) (clock e 1)))"

section \<open>Example stores\<close>

definition ex_raw :: raw_file where
  "ex_raw = \<lparr> raw_name = ''talk.mp3'', raw_size = 2048, raw_type = ''audio/mp3'' \<rparr>"

definition ex_file :: "file_id \<Rightarrow> FILE_STATUS \<Rightarrow> nat \<Rightarrow> file_record" where
  "ex_file fid st p = (new_file 0 ''t0'' 0 ex_raw)\<lparr> id_f := fid, status := st, progress := p \<rparr>"

definition ex_store :: "file_record list \<Rightarrow> file_id list \<Rightarrow> store" where
  "ex_store fs q = initialState\<lparr> files := fs, processingQueue := q \<rparr>"

definition ex_transcript :: transcription_result where
  "ex_transcript = \<lparr> text_t = ''hello world'', duration = 3, processing_time = 1 \<rparr>"

definition ex_failed :: file_record where
  "ex_failed = (ex_file ''1_0'' FAILED 33)
     \<lparr> transcription := Some ex_transcript, editableTranscription := Some ''hello world'',
       errors := [\<lparr> stage = Some ''ai_processing'', message = ''quota'', timestamp = ''t3'' \<rparr>] \<rparr>"

definition sample_cs :: settings where
  "sample_cs = \<lparr> aiSettings = \<lparr> selectedPromptType = ''professional'', customPrompt = [],
                     prompts = [(''professional'', ''Please rewrite this text.'')],
                     openaiApiKey = ''sk-test'' \<rparr>,
                 voiceSettings = \<lparr> voice = ''af_heart'', speed = 1, format = ''mp3'', tts_model = ''kokoro'' \<rparr> \<rparr>"

definition sample_env :: env where
  "sample_env = \<lparr> VITE_OPENAI_API_KEY = None,
                  transcribe_response = Inr ex_transcript,
                  completion_response = Inr \<lparr> content = Some ''Hello, world.'', total_tokens = Some 42 \<rparr>,
                  speech_response = Inr \<lparr> url = ''blob:1'', blob = ''bytes'' \<rparr>,
                  clock = string_of_nat \<rparr>"

definition ex_rewrite :: ai_result where
  "ex_rewrite = \<lparr> processed_text = ''Old text.'', original_text = Some ''hello world'',
                  prompt_used = Some ''Summarise.'', model = ''gpt-3.5-turbo'', tokens_used = 17 \<rparr>"

definition ex_rewritten :: "file_id \<Rightarrow> FILE_STATUS \<Rightarrow> file_record" where
  "ex_rewritten fid st = (ex_file fid st 66)
     \<lparr> transcription := Some ex_transcript, editableTranscription := Some ''hello world'',
       aiResult := Some ex_rewrite, editableAIResult := Some ''Old text, edited.'',
       timestamps := (timestamps (ex_file fid st 66))
          \<lparr> transcriptionStart := Some ''a'', transcriptionEnd := Some ''b'',
            aiProcessingStart := Some ''c'', aiProcessingEnd := Some ''d'' \<rparr> \<rparr>"

section \<open>Predicates of the state machine\<close>

text \<open>A file is in flight while one of the three stage calls is outstanding for it.\<close>

definition in_flight :: "FILE_STATUS \<Rightarrow> bool" where
  "in_flight st = (st = TRANSCRIBING \<or> st = AI_PROCESSING \<or> st = GENERATING_SPEECH)"


text \<open>
  The edges of the state machine as the specification lists them: the chain from PENDING
  to COMPLETED with the optional review gate, FAILED from every in-flight state, and the
  retry edge from FAILED to PENDING.
\<close>

definition legal_edge :: "FILE_STATUS \<Rightarrow> FILE_STATUS \<Rightarrow> bool" where
  "legal_edge a b =
     ((a = PENDING \<and> b = TRANSCRIBING)
    \<or> (a = TRANSCRIBING \<and> b = TRANSCRIBED)
    \<or> (a = TRANSCRIBED \<and> b = AI_PROCESSING)
    \<or> (a = AI_PROCESSING \<and> b = AI_PROCESSED)
    \<or> (a = AI_PROCESSED \<and> b = REVIEW_PENDING)
    \<or> (a = REVIEW_PENDING \<and> b = APPROVED)
    \<or> (a = REVIEW_PENDING \<and> b = REJECTED)
    \<or> (a = APPROVED \<and> b = GENERATING_SPEECH)
    \<or> (a = AI_PROCESSED \<and> b = GENERATING_SPEECH)
    \<or> (a = GENERATING_SPEECH \<and> b = COMPLETED)
    \<or> (in_flight a \<and> b = FAILED)
    \<or> (a = FAILED \<and> b = PENDING))"

text \<open>
  The edges the engine takes: the legal ones, and FAILED from the state a stage is about
  to start from (TRANSCRIBED, AI_PROCESSED, APPROVED), taken when the engine throws before
  it issues the call (no API key, no text to send).
\<close>

definition engine_edge :: "FILE_STATUS \<Rightarrow> FILE_STATUS \<Rightarrow> bool" where
  "engine_edge a b =
     (legal_edge a b \<or> ((a = TRANSCRIBED \<or> a = AI_PROCESSED \<or> a = APPROVED) \<and> b = FAILED))"

text \<open>
  The progress bands of the data model: at most 33 until the transcript is there, at most
  66 until the rewrite is there, at most 100 afterwards.
\<close>

definition band_cap :: "FILE_STATUS \<Rightarrow> nat" where
  "band_cap st =
     (if st = PENDING \<or> st = TRANSCRIBING then 33
      else if st = TRANSCRIBED \<or> st = AI_PROCESSING then 66
      else 100)"

definition within_band :: "file_record \<Rightarrow> bool" where
  "within_band f = (progress f \<le> band_cap (status f))"

text \<open>
  What one dispatch of the engine may do to a record: keep its id; keep its status or move
  it along an edge; and, when its progress is within its band, not lower the progress and
  keep it within the band.
\<close>

definition file_step :: "file_record \<Rightarrow> file_record \<Rightarrow> bool" where
  "file_step f f' =
     (id_f f' = id_f f
      \<and> (status f' = status f \<or> engine_edge (status f) (status f'))
      \<and> (if within_band f then progress f \<le> progress f' \<and> within_band f' else True))"

definition store_step :: "store \<Rightarrow> store \<Rightarrow> bool" where
  "store_step s s' = list_all2 file_step (files s) (files s')"

text \<open>The record with the given id, if there is one, is not in flight.\<close>

definition settled :: "file_id \<Rightarrow> store \<Rightarrow> bool" where
  "settled fid s = (case find_file fid (files s) of None \<Rightarrow> True | Some f \<Rightarrow> \<not> in_flight (status f))"

text \<open>No record other than the first one with the given id is in flight.\<close>

definition others_idle :: "file_id \<Rightarrow> file_record list \<Rightarrow> bool" where
  "others_idle fid fs =
     (filter (\<lambda>f. in_flight (status f)) (update_file fid (\<lambda>f. f\<lparr> status := PENDING \<rparr>) fs) = [])"

text \<open>The record with the given id, if there is one, is in a state the catch block fails it from.\<close>

definition catchable :: "file_id \<Rightarrow> store \<Rightarrow> bool" where
  "catchable fid s =
     (case find_file fid (files s) of
        None \<Rightarrow> True
      | Some f \<Rightarrow> status f = FAILED \<or> status f = TRANSCRIBED \<or> status f = AI_PROCESSED \<or> status f = APPROVED)"

text \<open>
  One dispatch, seen from the file with id \<open>fid\<close>: every record makes a \<open>file_step\<close>, and
  if no other record was in flight, none is afterwards.
\<close>

definition engine_step :: "file_id \<Rightarrow> store \<Rightarrow> store \<Rightarrow> bool" where
  "engine_step fid s s' =
     (list_all2 file_step (files s) (files s')
      \<and> (if others_idle fid (files s) then others_idle fid (files s') else True))"

definition run_ok :: "file_id \<Rightarrow> action list \<Rightarrow> store \<Rightarrow> bool" where
  "run_ok fid acts s = successively (engine_step fid) (s # states_of acts s)"

text \<open>The record with the given id, if there is one, has one of the listed statuses.\<close>

definition status_in :: "file_id \<Rightarrow> FILE_STATUS list \<Rightarrow> store \<Rightarrow> bool" where
  "status_in fid S s =
     (case find_file fid (files s) of None \<Rightarrow> True | Some f \<Rightarrow> status f \<in> set S)"

text \<open>
  What each step of a run is shown to do, for its actions \<open>fst r\<close> and its thrown error
  \<open>snd r\<close>: every dispatch is an \<open>engine_step\<close>; if the step throws, the record is in a
  state the catch block fails it from; and if the record was not in flight before the
  step, it is not in flight after it.
\<close>

definition phase_ok :: "file_id \<Rightarrow> action list \<times> thrown option \<Rightarrow> store \<Rightarrow> bool" where
  "phase_ok fid r s =
     (run_ok fid (fst r) s
      \<and> (if snd r = None then True else catchable fid (dispatch_all (fst r) s))
      \<and> (if settled fid s then settled fid (dispatch_all (fst r) s) else True))"

section \<open>Example runs\<close>

text \<open>Settings without any API key.\<close>

definition no_key_cs :: settings where
  "no_key_cs = sample_cs\<lparr> aiSettings := (aiSettings sample_cs)\<lparr> openaiApiKey := [] \<rparr> \<rparr>"

definition ex_transcribed :: "file_id \<Rightarrow> file_record" where
  "ex_transcribed fid = (ex_file fid TRANSCRIBED 33)
     \<lparr> transcription := Some ex_transcript, editableTranscription := Some ''hello world'' \<rparr>"






section \<open>Bundling and export (fileUtils)\<close>




text \<open>
  The folder \<open>createFileFolder\<close> adds to the archive for one record: the transcript text and
  the rewritten text (the editable copy, or else the stage's own text), the audio blob, and
  the metadata object. Of the two text files the model keeps the text taken from the
  record and leaves out the header lines, which print dates and durations in the locale's
  format; of the metadata it keeps the fields copied from the record.
\<close>

record metadata =
  m_name :: string
  m_size :: nat
  m_type :: string
  m_status :: FILE_STATUS
  m_progress :: nat
  m_timestamps :: timestamps_r
  m_errors :: "error_entry list"
  m_tokens_used :: "nat option"

record export_folder =
  folder_name :: string
  transcription_txt :: "string option"
  ai_processed_txt :: "string option"
  final_audio :: "string option"
  metadata_json :: metadata






section \<open>Review gate\<close>

text \<open>
  Modelled from the spec: the reducer \<open>approveFile\<close> of the slice, which the review modal
  and the hook import and which is not among the source files. Section 4.3:
  \<open>approve(id)\<close> moves REVIEW_PENDING to APPROVED, removes the id from ReviewQueue, adds it
  to the set approvedFiles, and re-enqueues it onto ProcessingQueue (whose ids are unique).
  Like every store operation it does nothing on a missing id.
\<close>

definition approveFile :: "file_id \<Rightarrow> store \<Rightarrow> store" where
  "approveFile fileId s =
     (case find_file fileId (files s) of
        None \<Rightarrow> s
      | Some f \<Rightarrow>
          if status f = REVIEW_PENDING then
            s\<lparr> files := update_file fileId (\<lambda>x. x\<lparr> status := APPROVED \<rparr>) (files s),
               reviewQueue := filter (\<lambda>i. i \<noteq> fileId) (reviewQueue s),
               approvedFiles := approvedFiles s @ filter (\<lambda>i. i \<notin> set (approvedFiles s)) [fileId],
               processingQueue := processingQueue s @ filter (\<lambda>i. i \<notin> set (processingQueue s)) [fileId] \<rparr>
          else s)"

text \<open>
  Modelled from the spec: the reducer \<open>removeFromReviewQueue\<close> of the slice, not among the
  source files; it takes the id out of ReviewQueue.
\<close>

definition removeFromReviewQueue :: "file_id \<Rightarrow> store \<Rightarrow> store" where
  "removeFromReviewQueue fileId s = s\<lparr> reviewQueue := filter (\<lambda>i. i \<noteq> fileId) (reviewQueue s) \<rparr>"

text \<open>
  Modelled from the spec: the reducer \<open>updateEditableAIResult\<close> of the slice, not among the
  source files; it stores the user's text in the record's editable copy of the rewrite.
\<close>

definition updateEditableAIResult :: "file_id \<Rightarrow> string \<Rightarrow> store \<Rightarrow> store" where
  "updateEditableAIResult fileId txt s =
     with_file fileId (\<lambda>f. f\<lparr> editableAIResult := Some txt \<rparr>) (\<lambda>s. s) s"

text \<open>
  \<open>handleApprove\<close> of the review modal: it saves the edited text when it differs from the
  record's, then dispatches \<open>approveFile\<close> and \<open>removeFromReviewQueue\<close>.
\<close>

definition handleApprove :: "file_id \<Rightarrow> string \<Rightarrow> store \<Rightarrow> store" where
  "handleApprove fileId editedText s =
     (let shown = (case find_file fileId (files s) of None \<Rightarrow> None | Some f \<Rightarrow> editableAIResult f);
          s1 = (if Some editedText \<noteq> shown then updateEditableAIResult fileId editedText s else s)
      in removeFromReviewQueue fileId (approveFile fileId s1))"

section \<open>Basic facts about the helpers\<close>

lemma find_file_None_iff: "find_file fid fs = None \<longleftrightarrow> fid \<notin> id_f ` set fs"
  by (auto simp: find_file_def find_None_iff)

lemma with_file_missing: "fid \<notin> id_f ` set (files s) \<Longrightarrow> with_file fid g h s = s"
  using find_file_None_iff [of fid "files s"] by (simp add: with_file_def)

section \<open>Operations on a missing id\<close>

text \<open>
  C10. Every record-targeting store operation (\<open>updateFileStatus\<close>, the three attach
  operations \<open>updateFileTranscription\<close>, \<open>updateFileAIResult\<close>, \<open>updateFileFinalAudio\<close>,
  \<open>markFileFailed\<close>, \<open>markFileCompleted\<close>, and the pending, fulfilled and rejected handlers
  of the three stages), applied with an id that no record of the store has, returns the
  whole store unchanged.
\<close>

theorem C10_missing_id_is_noop:
  assumes "fid \<notin> id_f ` set (files s)"
  shows "updateFileStatus fid st prog s = s
       \<and> updateFileTranscription fid tr et s = s
       \<and> updateFileAIResult fid r et s = s
       \<and> updateFileFinalAudio fid au ab s = s
       \<and> markFileFailed fid err now s = s
       \<and> markFileCompleted fid now s = s
       \<and> transcribeFile_pending fid now s = s
       \<and> transcribeFile_fulfilled fid tr now s = s
       \<and> transcribeFile_rejected fid err now s = s
       \<and> processWithAI_pending fid now s = s
       \<and> processWithAI_fulfilled fid r now s = s
       \<and> processWithAI_rejected fid err now s = s
       \<and> generateSpeech_pending fid now s = s
       \<and> generateSpeech_fulfilled fid au ab now s = s
       \<and> generateSpeech_rejected fid err now s = s"
proof -
  have none: "find_file fid (files s) = None"
    using assms by (simp add: find_file_None_iff)
  have wf: "\<And>g h. with_file fid g h s = s"
    using assms by (rule with_file_missing)
  have mc: "markFileCompleted fid now s = s"
    by (simp add: markFileCompleted_def none)
  show ?thesis
    unfolding updateFileStatus_def updateFileTranscription_def updateFileAIResult_def
      updateFileFinalAudio_def markFileFailed_def transcribeFile_pending_def
      transcribeFile_fulfilled_def transcribeFile_rejected_def processWithAI_pending_def
      processWithAI_fulfilled_def processWithAI_rejected_def generateSpeech_pending_def
      generateSpeech_fulfilled_def generateSpeech_rejected_def
    by (simp add: wf mc)
qed

theorem C10_missing_id_is_noop_witness:
  "''9_9'' \<notin> id_f ` set (files (ex_store [ex_file ''1_0'' TRANSCRIBING 0] [''1_0'']))
   \<and> markFileFailed ''9_9'' ''boom'' ''t1'' (ex_store [ex_file ''1_0'' TRANSCRIBING 0] [''1_0''])
       = ex_store [ex_file ''1_0'' TRANSCRIBING 0] [''1_0'']
   \<and> transcribeFile_fulfilled ''9_9'' \<lparr> text_t = ''hello'', duration = 3, processing_time = 1 \<rparr> ''t1''
         (ex_store [ex_file ''1_0'' TRANSCRIBING 0] [''1_0''])
       = ex_store [ex_file ''1_0'' TRANSCRIBING 0] [''1_0'']"
proof -
  have h: "''9_9'' \<notin> id_f ` set (files (ex_store [ex_file ''1_0'' TRANSCRIBING 0] [''1_0'']))"
    by (simp add: ex_store_def ex_file_def)
  show ?thesis
    using h C10_missing_id_is_noop [OF h] by simp
qed

lemma map_if_absent:
  "fid \<notin> id_f ` set fs \<Longrightarrow> map (\<lambda>f. if id_f f = fid then g f else f) fs = fs"
  by (induction fs) auto

lemma update_file_map:
  "distinct (map id_f fs) \<Longrightarrow>
   update_file fid g fs = map (\<lambda>f. if id_f f = fid then g f else f) fs"
  by (induction fs) (auto simp: map_if_absent)

lemma update_file_absent: "fid \<notin> id_f ` set fs \<Longrightarrow> update_file fid g fs = fs"
  by (induction fs) auto

lemma files_with_file:
  assumes "\<And>t. files (h t) = files t"
  shows "files (with_file fid g h s) = update_file fid g (files s)"
proof (cases "find_file fid (files s)")
  case None
  then have "fid \<notin> id_f ` set (files s)" by (simp add: find_file_None_iff)
  then show ?thesis using None
    by (simp add: with_file_def update_file_absent)
next
  case (Some a)
  then show ?thesis by (simp add: with_file_def assms)
qed

lemma with_file_map:
  assumes "distinct (map id_f (files s))"
  shows "with_file fid g (\<lambda>s. s) s = s\<lparr>files := map (\<lambda>f. if id_f f = fid then g f else f) (files s)\<rparr>"
proof (cases "find_file fid (files s)")
  case None
  then have "fid \<notin> id_f ` set (files s)" by (simp add: find_file_None_iff)
  then show ?thesis using None
    by (simp add: with_file_def map_if_absent)
next
  case (Some a)
  then show ?thesis using assms by (simp add: with_file_def update_file_map)
qed

section \<open>Retry of failed files\<close>

lemma retry_loop:
  "distinct (map id_f (files s)) \<Longrightarrow> distinct ids \<Longrightarrow>
   dispatch_all (concat (map (\<lambda>fid. [UpdateFileStatus fid PENDING (Some 0), AddToQueue [fid]]) ids)) s =
   s\<lparr>files := map (\<lambda>f. if id_f f \<in> set ids then f\<lparr> status := PENDING, progress := 0 \<rparr> else f) (files s),
     processingQueue := processingQueue s @ filter (\<lambda>i. i \<notin> set (processingQueue s)) ids\<rparr>"
proof (induction ids arbitrary: s)
  case Nil
  then show ?case by simp
next
  case (Cons a ids)
  let ?s1 = "addToQueue [a] (updateFileStatus a PENDING (Some 0) s)"
  have f1: "files ?s1 = map (\<lambda>f. if id_f f = a then f\<lparr> status := PENDING, progress := 0 \<rparr> else f) (files s)"
    using Cons.prems(1) by (simp add: addToQueue_def updateFileStatus_def with_file_map)
  have d1: "distinct (map id_f (files ?s1))"
    using Cons.prems(1) unfolding f1 by (simp add: comp_def if_distrib cong: if_cong)
  have q1: "processingQueue ?s1 = processingQueue s @ filter (\<lambda>i. i \<notin> set (processingQueue s)) [a]"
    using Cons.prems(1) by (simp add: addToQueue_def updateFileStatus_def with_file_map)
  have rest: "?s1 = s\<lparr>files := files ?s1, processingQueue := processingQueue ?s1\<rparr>"
    using Cons.prems(1) by (simp add: addToQueue_def updateFileStatus_def with_file_map)
  have ih: "dispatch_all (concat (map (\<lambda>fid. [UpdateFileStatus fid PENDING (Some 0), AddToQueue [fid]]) ids)) ?s1 =
     ?s1\<lparr>files := map (\<lambda>f. if id_f f \<in> set ids then f\<lparr> status := PENDING, progress := 0 \<rparr> else f) (files ?s1),
     processingQueue := processingQueue ?s1 @ filter (\<lambda>i. i \<notin> set (processingQueue ?s1)) ids\<rparr>"
    using Cons.IH [OF d1] Cons.prems(2) by simp
  have fm: "map (\<lambda>f. if id_f f \<in> set ids then f\<lparr> status := PENDING, progress := 0 \<rparr> else f) (files ?s1)
      = map (\<lambda>f. if id_f f \<in> set (a # ids) then f\<lparr> status := PENDING, progress := 0 \<rparr> else f) (files s)"
    unfolding f1 using Cons.prems(2) by auto
  have qm: "processingQueue ?s1 @ filter (\<lambda>i. i \<notin> set (processingQueue ?s1)) ids
      = processingQueue s @ filter (\<lambda>i. i \<notin> set (processingQueue s)) (a # ids)"
    unfolding q1 using Cons.prems(2) by (auto intro: filter_cong)
  show ?case
    apply (simp only: list.map concat.simps append.simps dispatch_all.simps fileProcessingReducer.simps)
    apply (subst ih)
    apply (subst fm)
    apply (subst qm)
    apply (subst rest)
    apply simp
    done
qed

lemma failed_ids_iff:
  assumes "distinct (map id_f fs)" "f \<in> set fs"
  shows "id_f f \<in> set (map id_f (filter (\<lambda>f. status f = FAILED) fs)) \<longleftrightarrow> status f = FAILED"
proof -
  have inj: "inj_on id_f (set fs)" using assms(1) by (simp add: distinct_map)
  show ?thesis using assms(2) inj by (auto simp: inj_on_def)
qed

lemma retry_result:
  assumes "distinct (map id_f (files s))"
  shows "retryFailedFiles s =
     (length (filter (\<lambda>f. status f = FAILED) (files s)),
      s\<lparr> files := map (\<lambda>f. if status f = FAILED then f\<lparr> status := PENDING, progress := 0 \<rparr> else f) (files s),
         processingQueue := processingQueue s
            @ filter (\<lambda>i. i \<notin> set (processingQueue s))
                (map id_f (filter (\<lambda>f. status f = FAILED) (files s))) \<rparr>)"
proof -
  let ?ids = "map id_f (filter (\<lambda>f. status f = FAILED) (files s))"
  have d: "distinct ?ids" using assms by (simp add: distinct_map_filter)
  have m: "map (\<lambda>f. if id_f f \<in> set ?ids then f\<lparr> status := PENDING, progress := 0 \<rparr> else f) (files s)
         = map (\<lambda>f. if status f = FAILED then f\<lparr> status := PENDING, progress := 0 \<rparr> else f) (files s)"
    using failed_ids_iff [OF assms] by (intro map_cong) auto
  have loop: "dispatch_all
      (concat (map (\<lambda>fileId. [UpdateFileStatus fileId PENDING (Some 0), AddToQueue [fileId]]) ?ids)) s
    = s\<lparr> files := map (\<lambda>f. if status f = FAILED then f\<lparr> status := PENDING, progress := 0 \<rparr> else f) (files s),
         processingQueue := processingQueue s @ filter (\<lambda>i. i \<notin> set (processingQueue s)) ?ids \<rparr>"
    using retry_loop [OF assms d] unfolding m .
  show ?thesis
    unfolding retryFailedFiles_def Let_def loop by (simp only: length_map)
qed

text \<open>
  C7. In a store whose records have pairwise different ids (the data model's unique id),
  \<open>retryFailedFiles()\<close> returns the number of FAILED records; it turns every FAILED record
  into the same record with status PENDING and progress 0, so its transcription, rewrite
  result, audio and error entries stay as they were, and leaves every other record alone;
  and it appends to the processing queue the id of each such record that the queue does
  not hold yet, so that afterwards the queue holds all of them.
\<close>

theorem C7_retryFailedFiles:
  assumes "distinct (map id_f (files s))"
  shows "retryFailedFiles s =
     (length (filter (\<lambda>f. status f = FAILED) (files s)),
      s\<lparr> files := map (\<lambda>f. if status f = FAILED then f\<lparr> status := PENDING, progress := 0 \<rparr> else f) (files s),
         processingQueue := processingQueue s
            @ filter (\<lambda>i. i \<notin> set (processingQueue s))
                (map id_f (filter (\<lambda>f. status f = FAILED) (files s))) \<rparr>)"
  using assms by (rule retry_result)

theorem C7_retryFailedFiles_witness:
  "distinct (map id_f (files (ex_store [ex_failed, ex_file ''1_1'' COMPLETED 100] [])))
   \<and> retryFailedFiles (ex_store [ex_failed, ex_file ''1_1'' COMPLETED 100] [])
     = (1, ex_store [ex_failed\<lparr> status := PENDING, progress := 0 \<rparr>, ex_file ''1_1'' COMPLETED 100] [''1_0''])"
proof -
  have h: "distinct (map id_f (files (ex_store [ex_failed, ex_file ''1_1'' COMPLETED 100] [])))"
    by (simp add: ex_store_def ex_file_def ex_failed_def)
  show ?thesis
    using h C7_retryFailedFiles [OF h]
    by (simp add: ex_store_def ex_file_def ex_failed_def)
qed

section \<open>Queue admission\<close>

lemma remdups_snoc: "remdups (zs @ [x]) = remdups (filter (\<lambda>i. i \<noteq> x) zs) @ [x]"
  by (induction zs) auto

lemma add_each:
  "dispatch_all (map (\<lambda>fileId. AddToQueue [fileId]) xs) s =
   s\<lparr> processingQueue := processingQueue s
         @ rev (remdups (rev (filter (\<lambda>i. i \<notin> set (processingQueue s)) xs))) \<rparr>"
proof (induction xs arbitrary: s)
  case Nil
  then show ?case by simp
next
  case (Cons x xs)
  let ?s1 = "addToQueue [x] s"
  have s1: "?s1 = s\<lparr> processingQueue := processingQueue ?s1 \<rparr>"
    by (simp add: addToQueue_def)
  have key: "processingQueue ?s1 @ rev (remdups (rev (filter (\<lambda>i. i \<notin> set (processingQueue ?s1)) xs)))
      = processingQueue s @ rev (remdups (rev (filter (\<lambda>i. i \<notin> set (processingQueue s)) (x # xs))))"
  proof (cases "x \<in> set (processingQueue s)")
    case True
    then show ?thesis by (simp add: addToQueue_def)
  next
    case False
    have "filter (\<lambda>i. i \<notin> set (processingQueue ?s1)) xs
        = filter (\<lambda>i. i \<noteq> x) (filter (\<lambda>i. i \<notin> set (processingQueue s)) xs)"
      using False by (auto simp: addToQueue_def intro: filter_cong)
    moreover have "\<And>ys. rev (remdups (rev (x # ys))) = x # rev (remdups (rev (filter (\<lambda>i. i \<noteq> x) ys)))"
      by (simp add: remdups_snoc rev_filter)
    ultimately show ?thesis using False by (simp add: addToQueue_def del: remdups.simps)
  qed
  show ?case
    apply (simp only: list.map dispatch_all.simps fileProcessingReducer.simps)
    apply (subst Cons.IH)
    apply (subst key)
    apply (subst s1)
    apply simp
    done
qed

text \<open>
  C6, as the claim states it, fails: a PENDING file that is already in the queue passes the
  status filter, so the set of ids that are eligible and not yet queued is empty, and yet
  the call does not fail: it returns 1 and leaves the store as it is.
\<close>

theorem C6_counterexample_already_queued:
  "filter (\<lambda>i. is_valid_id (ex_store [ex_file ''1_0'' PENDING 0] [''1_0'']) i
               \<and> i \<notin> set (processingQueue (ex_store [ex_file ''1_0'' PENDING 0] [''1_0''])))
          [''1_0''] = []
   \<and> startBatchProcessing [''1_0''] (ex_store [ex_file ''1_0'' PENDING 0] [''1_0''])
       = Inr (1, ex_store [ex_file ''1_0'' PENDING 0] [''1_0''])"
  by (simp add: startBatchProcessing_def is_valid_id_def find_file_def eligible_def
        ex_store_def ex_file_def addToQueue_def)

text \<open>
  C6, amended. \<open>startBatchProcessing(ids)\<close> fails with the error
  \<open>No valid files to process\<close>, changing nothing, exactly when no id of the input belongs
  to a record whose status is PENDING, TRANSCRIBED, AI_PROCESSED or APPROVED. Otherwise it
  returns the number of such ids and appends to the queue, once each and in input order,
  exactly the ids of the input that are eligible and not already in the queue (possibly
  none).
\<close>

theorem C6_startBatchProcessing:
  "startBatchProcessing ids s =
     (if filter (is_valid_id s) ids = [] then Inl ''No valid files to process''
      else Inr (length (filter (is_valid_id s) ids),
                s\<lparr> processingQueue := processingQueue s
                     @ rev (remdups (rev (filter (\<lambda>i. is_valid_id s i \<and> i \<notin> set (processingQueue s)) ids))) \<rparr>))
   \<and> distinct (rev (remdups (rev (filter (\<lambda>i. is_valid_id s i \<and> i \<notin> set (processingQueue s)) ids))))
   \<and> set (rev (remdups (rev (filter (\<lambda>i. is_valid_id s i \<and> i \<notin> set (processingQueue s)) ids))))
       = {i \<in> set ids. is_valid_id s i \<and> i \<notin> set (processingQueue s)}"
proof -
  have f: "filter (\<lambda>i. i \<notin> set (processingQueue s)) (filter (\<lambda>fileId. fileId \<notin> set (processingQueue s)) (filter (is_valid_id s) ids))
         = filter (\<lambda>i. is_valid_id s i \<and> i \<notin> set (processingQueue s)) ids"
    by (induction ids) auto
  have "startBatchProcessing ids s =
     (if filter (is_valid_id s) ids = [] then Inl ''No valid files to process''
      else Inr (length (filter (is_valid_id s) ids),
                s\<lparr> processingQueue := processingQueue s
                     @ rev (remdups (rev (filter (\<lambda>i. is_valid_id s i \<and> i \<notin> set (processingQueue s)) ids))) \<rparr>))"
    unfolding startBatchProcessing_def Let_def add_each f by (rule refl)
  moreover have "set (rev (remdups (rev (filter (\<lambda>i. is_valid_id s i \<and> i \<notin> set (processingQueue s)) ids))))
       = {i \<in> set ids. is_valid_id s i \<and> i \<notin> set (processingQueue s)}"
    by auto
  ultimately show ?thesis by simp
qed

theorem C6_startBatchProcessing_witness:
  "startBatchProcessing [''1_1'', ''1_0'', ''1_1'', ''7_7'']
      (ex_store [ex_file ''1_0'' TRANSCRIBED 33, ex_file ''1_1'' PENDING 0, ex_file ''1_2'' COMPLETED 100] [''1_0''])
     = Inr (3, ex_store [ex_file ''1_0'' TRANSCRIBED 33, ex_file ''1_1'' PENDING 0, ex_file ''1_2'' COMPLETED 100]
                 [''1_0'', ''1_1''])
   \<and> startBatchProcessing [''1_2'', ''7_7'']
      (ex_store [ex_file ''1_0'' TRANSCRIBED 33, ex_file ''1_1'' PENDING 0, ex_file ''1_2'' COMPLETED 100] [''1_0''])
     = Inl ''No valid files to process''"
  using
    C6_startBatchProcessing [of "[''1_1'', ''1_0'', ''1_1'', ''7_7'']"
      "ex_store [ex_file ''1_0'' TRANSCRIBED 33, ex_file ''1_1'' PENDING 0, ex_file ''1_2'' COMPLETED 100] [''1_0'']"]
    C6_startBatchProcessing [of "[''1_2'', ''7_7'']"
      "ex_store [ex_file ''1_0'' TRANSCRIBED 33, ex_file ''1_1'' PENDING 0, ex_file ''1_2'' COMPLETED 100] [''1_0'']"]
  by (simp add: is_valid_id_def find_file_def eligible_def ex_store_def ex_file_def)

section \<open>Reading a record back after a handler\<close>

lemma find_file_id: "find_file fid fs = Some f \<Longrightarrow> id_f f = fid"
  by (induction fs) (auto simp: find_file_def split: if_splits)

lemma find_update_same:
  "find_file fid fs = Some f \<Longrightarrow> id_f (g f) = fid \<Longrightarrow>
   find_file fid (update_file fid g fs) = Some (g f)"
  by (induction fs) (auto simp: find_file_def split: if_splits)

lemma update_file_found:
  "find_file fid fs = Some f \<Longrightarrow> update_file fid g fs = update_file fid (\<lambda>_. g f) fs"
  by (induction fs) (auto simp: find_file_def split: if_splits)

lemma update_file_twice:
  "(\<And>x. id_f (g1 x) = id_f x) \<Longrightarrow>
   update_file fid g2 (update_file fid g1 fs) = update_file fid (\<lambda>x. g2 (g1 x)) fs"
  by (induction fs) auto

lemma files_count_failed [simp]: "files (count_failed s) = files s"
  by (simp add: count_failed_def)

lemma files_count_completed [simp]: "files (count_completed s) = files s"
  by (simp add: count_completed_def)

lemma files_setCurrentlyProcessing [simp]: "files (setCurrentlyProcessing p s) = files s"
  by (simp add: setCurrentlyProcessing_def)

lemma files_removeFromQueue [simp]: "files (removeFromQueue i s) = files s"
  by (simp add: removeFromQueue_def)

lemma find_with_file:
  assumes "\<And>t. files (h t) = files t" "find_file fid (files s) = Some f" "id_f (g f) = id_f f"
  shows "find_file fid (files (with_file fid g h s)) = Some (g f)"
  using assms find_file_id [OF assms(2)]
  by (simp add: files_with_file find_update_same)

section \<open>Failure of the transcription stage\<close>

lemma engine_actions_transcribe_fail:
  assumes slot: "\<not> truthy (currentlyProcessing s)"
      and q: "processingQueue s = fid # rest"
      and f: "find_file fid (files s) = Some f"
      and st: "status f = PENDING"
      and fail: "transcribe_response e = Inl err"
  shows "processNextInQueue cs e s =
     [SetCurrentlyProcessing (Some fid),
      TranscribeFile_pending fid (clock e 0),
      TranscribeFile_rejected fid err (clock e 1),
      MarkFileFailed fid ''Unknown error occurred'' (clock e 6),
      RemoveFromQueue fid,
      SetCurrentlyProcessing None]"
  using assms
  by (simp add: processNextInQueue_def step_transcription_def transcribeFile_def catch_message_def)



section \<open>Manual reprocess\<close>

lemma with_file_found:
  "find_file fid (files s) = Some f \<Longrightarrow>
   with_file fid g h s = h (s\<lparr>files := update_file fid g (files s)\<rparr>)"
  by (simp add: with_file_def)

text \<open>
  C8, as the claim states it, fails twice. A file in REVIEW_PENDING ends a successful
  reprocess in AI_PROCESSED, since the \<open>fulfilled\<close> handler of the rewrite thunk always
  writes that status. And on a file in AI_PROCESSED the reprocess overwrites more than the
  rewrite result and its editable copy: the instant \<open>aiProcessingEnd\<close> (here \<open>d\<close>
  before, \<open>1\<close> after) and \<open>aiProcessingStart\<close> are written too.
\<close>

theorem C8_counterexample_review_pending:
  "map status (files (dispatch_all
      (fst (reprocessFile sample_cs sample_env ''1_0'' (ex_store [ex_rewritten ''1_0'' REVIEW_PENDING] [])))
      (ex_store [ex_rewritten ''1_0'' REVIEW_PENDING] []))) = [AI_PROCESSED]
   \<and> map (aiProcessingEnd \<circ> timestamps) (files (ex_store [ex_rewritten ''1_0'' AI_PROCESSED] [])) = [Some ''d'']
   \<and> map (aiProcessingEnd \<circ> timestamps) (files (dispatch_all
      (fst (reprocessFile sample_cs sample_env ''1_0'' (ex_store [ex_rewritten ''1_0'' AI_PROCESSED] [])))
      (ex_store [ex_rewritten ''1_0'' AI_PROCESSED] []))) = [Some ''1'']"
  by code_simp

text \<open>
  C8, amended. For a file in status AI_PROCESSED with progress 66 (the value the rewrite
  handler gives every file it moves to AI_PROCESSED), a manual reprocess that has an API
  key and whose rewrite call succeeds dispatches the \<open>pending\<close> and the \<open>fulfilled\<close> action
  of the rewrite thunk and nothing else. In between the record is in AI_PROCESSING. At the
  end the store differs from the initial one only in that record, and the record only in
  \<open>aiResult\<close>, \<open>editableAIResult\<close> and the instants \<open>aiProcessingStart\<close> and
  \<open>aiProcessingEnd\<close>; its status and its progress equal their values before the reprocess.
\<close>

theorem C8_reprocess_in_place:
  assumes f: "find_file fid (files s) = Some f"
      and st: "status f = AI_PROCESSED"
      and pr: "progress f = 66"
      and key: "truthy (or_js (Some (openaiApiKey (aiSettings cs))) (VITE_OPENAI_API_KEY e))"
      and resp: "completion_response e = Inr c"
      and r: "r = rewrite_of (or_js (editableTranscription f) (map_option text_t (transcription f)))
                     (or_js (gs_customPrompt (globalSettings s)) (Some (aiPrompt (globalSettings s)))) c"
  shows "reprocessFile cs e fid s
           = ([ProcessWithAI_pending fid (clock e 0), ProcessWithAI_fulfilled fid r (clock e 1)], None)
       \<and> map_option status (find_file fid (files (processWithAI_pending fid (clock e 0) s)))
           = Some AI_PROCESSING
       \<and> dispatch_all (fst (reprocessFile cs e fid s)) s
           = s\<lparr> files := update_file fid
                   (\<lambda>_. f\<lparr> aiResult := Some r,
                            editableAIResult := Some (processed_text r),
                            timestamps := (timestamps f)\<lparr> aiProcessingStart := Some (clock e 0),
                                                         aiProcessingEnd := Some (clock e 1) \<rparr> \<rparr>)
                   (files s) \<rparr>
       \<and> map_option status (find_file fid (files (dispatch_all (fst (reprocessFile cs e fid s)) s)))
           = Some (status f)
       \<and> map_option progress (find_file fid (files (dispatch_all (fst (reprocessFile cs e fid s)) s)))
           = Some (progress f)"
proof -
  have acts: "reprocessFile cs e fid s
           = ([ProcessWithAI_pending fid (clock e 0), ProcessWithAI_fulfilled fid r (clock e 1)], None)"
    using f key resp r by (simp add: reprocessFile_def processWithAI_def Let_def)
  have idf: "id_f f = fid" using f by (rule find_file_id)
  let ?g1 = "\<lambda>x. x\<lparr> status := AI_PROCESSING,
                    timestamps := (timestamps x)\<lparr> aiProcessingStart := Some (clock e 0) \<rparr> \<rparr>"
  let ?g2 = "\<lambda>x. x\<lparr> status := AI_PROCESSED, aiResult := Some r,
                    editableAIResult := Some (processed_text r),
                    timestamps := (timestamps x)\<lparr> aiProcessingEnd := Some (clock e 1) \<rparr>,
                    progress := 66 \<rparr>"
  have s1: "processWithAI_pending fid (clock e 0) s = s\<lparr> files := update_file fid ?g1 (files s) \<rparr>"
    using f by (simp add: processWithAI_pending_def with_file_found)
  have f1: "find_file fid (files (s\<lparr> files := update_file fid ?g1 (files s) \<rparr>)) = Some (?g1 f)"
    using f idf by (simp add: find_update_same)
  have mid: "map_option status (find_file fid (files (processWithAI_pending fid (clock e 0) s)))
           = Some AI_PROCESSING"
    unfolding s1 f1 by simp
  have s2: "processWithAI_fulfilled fid r (clock e 1) (s\<lparr> files := update_file fid ?g1 (files s) \<rparr>)
      = s\<lparr> files := update_file fid (\<lambda>x. ?g2 (?g1 x)) (files s) \<rparr>"
    using f1 by (simp add: processWithAI_fulfilled_def with_file_found update_file_twice)
  have gf: "?g2 (?g1 f) = f\<lparr> aiResult := Some r,
                            editableAIResult := Some (processed_text r),
                            timestamps := (timestamps f)\<lparr> aiProcessingStart := Some (clock e 0),
                                                         aiProcessingEnd := Some (clock e 1) \<rparr> \<rparr>"
    using st pr by simp
  have fin: "dispatch_all (fst (reprocessFile cs e fid s)) s
           = s\<lparr> files := update_file fid
                   (\<lambda>_. f\<lparr> aiResult := Some r,
                            editableAIResult := Some (processed_text r),
                            timestamps := (timestamps f)\<lparr> aiProcessingStart := Some (clock e 0),
                                                         aiProcessingEnd := Some (clock e 1) \<rparr> \<rparr>)
                   (files s) \<rparr>"
    unfolding acts
    apply (simp only: fst_conv dispatch_all.simps fileProcessingReducer.simps s1 s2)
    apply (subst update_file_found [OF f])
    apply (subst gf)
    apply (rule refl)
    done
  have rd: "find_file fid (files (dispatch_all (fst (reprocessFile cs e fid s)) s))
      = Some (f\<lparr> aiResult := Some r,
                            editableAIResult := Some (processed_text r),
                            timestamps := (timestamps f)\<lparr> aiProcessingStart := Some (clock e 0),
                                                         aiProcessingEnd := Some (clock e 1) \<rparr> \<rparr>)"
    unfolding fin using f idf by (simp add: find_update_same)
  show ?thesis using acts mid fin rd by simp
qed

theorem C8_reprocess_in_place_witness:
  "status (ex_rewritten ''1_0'' AI_PROCESSED) = AI_PROCESSED
   \<and> progress (ex_rewritten ''1_0'' AI_PROCESSED) = 66
   \<and> map_option status (find_file ''1_0'' (files (dispatch_all
        (fst (reprocessFile sample_cs sample_env ''1_0'' (ex_store [ex_rewritten ''1_0'' AI_PROCESSED] [])))
        (ex_store [ex_rewritten ''1_0'' AI_PROCESSED] [])))) = Some AI_PROCESSED
   \<and> map_option progress (find_file ''1_0'' (files (dispatch_all
        (fst (reprocessFile sample_cs sample_env ''1_0'' (ex_store [ex_rewritten ''1_0'' AI_PROCESSED] [])))
        (ex_store [ex_rewritten ''1_0'' AI_PROCESSED] [])))) = Some 66"
proof -
  let ?s = "ex_store [ex_rewritten ''1_0'' AI_PROCESSED] []"
  have h1: "find_file ''1_0'' (files ?s) = Some (ex_rewritten ''1_0'' AI_PROCESSED)"
    by (simp add: ex_store_def find_file_def ex_rewritten_def ex_file_def)
  have h2: "status (ex_rewritten ''1_0'' AI_PROCESSED) = AI_PROCESSED"
    by (simp add: ex_rewritten_def ex_file_def)
  have h3: "progress (ex_rewritten ''1_0'' AI_PROCESSED) = 66"
    by (simp add: ex_rewritten_def ex_file_def)
  have h4: "truthy (or_js (Some (openaiApiKey (aiSettings sample_cs))) (VITE_OPENAI_API_KEY sample_env))"
    by (simp add: sample_cs_def sample_env_def or_js_def truthy_def)
  have h5: "completion_response sample_env = Inr \<lparr> content = Some ''Hello, world.'', total_tokens = Some 42 \<rparr>"
    by (simp add: sample_env_def)
  note th = C8_reprocess_in_place [OF h1 h2 h3 h4 h5 refl]
  have a: "map_option status (find_file ''1_0'' (files (dispatch_all
        (fst (reprocessFile sample_cs sample_env ''1_0'' ?s)) ?s))) = Some AI_PROCESSED"
    using th [THEN conjunct2, THEN conjunct2, THEN conjunct2, THEN conjunct1] unfolding h2 .
  have b: "map_option progress (find_file ''1_0'' (files (dispatch_all
        (fst (reprocessFile sample_cs sample_env ''1_0'' ?s)) ?s))) = Some 66"
    using th [THEN conjunct2, THEN conjunct2, THEN conjunct2, THEN conjunct2] unfolding h3 .
  show ?thesis
    using h2 h3 a b by (intro conjI)
qed

section \<open>Each dispatch of the engine is a step of the state machine\<close>

lemma file_step_refl [simp]: "file_step f f"
  by (simp add: file_step_def)

lemma list_all2_update_file:
  assumes "\<And>f. find_file fid fs = Some f \<Longrightarrow> R f (g f)" "\<And>x. R x x"
  shows "list_all2 R fs (update_file fid g fs)"
  using assms(1)
proof (induction fs)
  case Nil
  then show ?case by simp
next
  case (Cons a fs)
  show ?case
  proof (cases "id_f a = fid")
    case True
    then have "R a (g a)" using Cons.prems [of a] by (simp add: find_file_def)
    then show ?thesis using True by (simp add: list_all2_refl assms(2))
  next
    case False
    then have "\<And>f. find_file fid fs = Some f \<Longrightarrow> R f (g f)"
      using Cons.prems by (simp add: find_file_def)
    then show ?thesis using False Cons.IH assms(2) by simp
  qed
qed

lemma others_idle_update:
  "(\<And>x. id_f (g x) = id_f x) \<Longrightarrow> others_idle fid (update_file fid g fs) = others_idle fid fs"
  by (induction fs) (auto simp: others_idle_def in_flight_def)

lemma engine_step_same_files:
  "files s' = files s \<Longrightarrow> engine_step fid s s'"
  by (simp add: engine_step_def list_all2_refl)

lemma engine_step_with_file:
  assumes "\<And>t. files (h t) = files t" "\<And>x. id_f (g x) = id_f x"
      and "\<And>f. find_file fid (files s) = Some f \<Longrightarrow> file_step f (g f)"
  shows "engine_step fid s (with_file fid g h s)"
  unfolding engine_step_def
  by (simp add: files_with_file assms(1) others_idle_update assms(2) list_all2_update_file assms(3))

lemma run_ok_Nil [simp]: "run_ok fid [] s"
  by (simp add: run_ok_def)

lemma run_ok_Cons:
  "run_ok fid (a # as) s \<longleftrightarrow>
     engine_step fid s (fileProcessingReducer a s) \<and> run_ok fid as (fileProcessingReducer a s)"
  by (simp add: run_ok_def)

lemma states_of_append:
  "states_of (as @ bs) s = states_of as s @ states_of bs (dispatch_all as s)"
  by (induction as arbitrary: s) auto

lemma dispatch_all_append:
  "dispatch_all (as @ bs) s = dispatch_all bs (dispatch_all as s)"
  by (induction as arbitrary: s) auto

lemma run_ok_append:
  "run_ok fid (as @ bs) s \<longleftrightarrow> run_ok fid as s \<and> run_ok fid bs (dispatch_all as s)"
  by (induction as arbitrary: s) (auto simp: run_ok_Cons)

lemma status_in_same_files:
  "files s' = files s \<Longrightarrow> status_in fid S s' = status_in fid S s"
  by (simp add: status_in_def)

lemma reducer_ok:
  assumes h: "\<And>t. files (h t) = files t"
      and g: "\<And>x. id_f (g x) = id_f x"
      and pre: "status_in fid S s"
      and stp: "\<And>f. status f \<in> set S \<Longrightarrow> file_step f (g f)"
      and post: "\<And>f. status (g f) = X"
  shows "engine_step fid s (with_file fid g h s) \<and> status_in fid [X] (with_file fid g h s)"
proof
  show "engine_step fid s (with_file fid g h s)"
  proof (rule engine_step_with_file [OF h g])
    fix f assume "find_file fid (files s) = Some f"
    then have "status f \<in> set S" using pre by (simp add: status_in_def)
    then show "file_step f (g f)" by (rule stp)
  qed
next
  show "status_in fid [X] (with_file fid g h s)"
  proof (cases "find_file fid (files s)")
    case None
    then show ?thesis by (simp add: with_file_def status_in_def)
  next
    case (Some f)
    have "find_file fid (files (with_file fid g h s)) = Some (g f)"
      using h Some g by (rule find_with_file)
    then show ?thesis by (simp add: status_in_def post)
  qed
qed

lemmas step_facts = file_step_def engine_edge_def legal_edge_def in_flight_def within_band_def band_cap_def

lemma ok_transcribeFile_pending:
  "status_in fid [PENDING] s \<Longrightarrow>
   engine_step fid s (transcribeFile_pending fid t s)
   \<and> status_in fid [TRANSCRIBING] (transcribeFile_pending fid t s)"
  unfolding transcribeFile_pending_def
  by (rule reducer_ok [where S = "[PENDING]"]) (simp_all add: step_facts)

lemma ok_transcribeFile_fulfilled:
  "status_in fid [TRANSCRIBING] s \<Longrightarrow>
   engine_step fid s (transcribeFile_fulfilled fid r t s)
   \<and> status_in fid [TRANSCRIBED] (transcribeFile_fulfilled fid r t s)"
  unfolding transcribeFile_fulfilled_def
  by (rule reducer_ok [where S = "[TRANSCRIBING]"]) (simp_all add: step_facts)

lemma ok_transcribeFile_rejected:
  "status_in fid [TRANSCRIBING] s \<Longrightarrow>
   engine_step fid s (transcribeFile_rejected fid err t s)
   \<and> status_in fid [FAILED] (transcribeFile_rejected fid err t s)"
  unfolding transcribeFile_rejected_def
  by (rule reducer_ok [where S = "[TRANSCRIBING]"]) (simp_all add: step_facts)

lemma ok_processWithAI_pending:
  "status_in fid [TRANSCRIBED] s \<Longrightarrow>
   engine_step fid s (processWithAI_pending fid t s)
   \<and> status_in fid [AI_PROCESSING] (processWithAI_pending fid t s)"
  unfolding processWithAI_pending_def
  by (rule reducer_ok [where S = "[TRANSCRIBED]"]) (simp_all add: step_facts)

lemma ok_processWithAI_fulfilled:
  "status_in fid [AI_PROCESSING] s \<Longrightarrow>
   engine_step fid s (processWithAI_fulfilled fid r t s)
   \<and> status_in fid [AI_PROCESSED] (processWithAI_fulfilled fid r t s)"
  unfolding processWithAI_fulfilled_def
  by (rule reducer_ok [where S = "[AI_PROCESSING]"]) (simp_all add: step_facts)

lemma ok_processWithAI_rejected:
  "status_in fid [AI_PROCESSING] s \<Longrightarrow>
   engine_step fid s (processWithAI_rejected fid err t s)
   \<and> status_in fid [FAILED] (processWithAI_rejected fid err t s)"
  unfolding processWithAI_rejected_def
  by (rule reducer_ok [where S = "[AI_PROCESSING]"]) (simp_all add: step_facts)

lemma ok_generateSpeech_pending:
  "status_in fid [APPROVED, AI_PROCESSED] s \<Longrightarrow>
   engine_step fid s (generateSpeech_pending fid t s)
   \<and> status_in fid [GENERATING_SPEECH] (generateSpeech_pending fid t s)"
  unfolding generateSpeech_pending_def
  by (rule reducer_ok [where S = "[APPROVED, AI_PROCESSED]"]) (auto simp add: step_facts)

lemma ok_generateSpeech_fulfilled:
  "status_in fid [GENERATING_SPEECH] s \<Longrightarrow>
   engine_step fid s (generateSpeech_fulfilled fid au ab t s)
   \<and> status_in fid [COMPLETED] (generateSpeech_fulfilled fid au ab t s)"
  unfolding generateSpeech_fulfilled_def
  by (rule reducer_ok [where S = "[GENERATING_SPEECH]"]) (simp_all add: step_facts)

lemma ok_generateSpeech_rejected:
  "status_in fid [GENERATING_SPEECH] s \<Longrightarrow>
   engine_step fid s (generateSpeech_rejected fid err t s)
   \<and> status_in fid [FAILED] (generateSpeech_rejected fid err t s)"
  unfolding generateSpeech_rejected_def
  by (rule reducer_ok [where S = "[GENERATING_SPEECH]"]) (simp_all add: step_facts)

lemma ok_markFileFailed:
  "status_in fid [FAILED, TRANSCRIBED, AI_PROCESSED, APPROVED] s \<Longrightarrow>
   engine_step fid s (markFileFailed fid err t s)
   \<and> status_in fid [FAILED] (markFileFailed fid err t s)"
  unfolding markFileFailed_def
  by (rule reducer_ok [where S = "[FAILED, TRANSCRIBED, AI_PROCESSED, APPROVED]"]) (auto simp add: step_facts)

lemma status_in_mono:
  "status_in fid S s \<Longrightarrow> set S \<subseteq> set S' \<Longrightarrow> status_in fid S' s"
  by (auto simp: status_in_def split: option.splits)

lemma catchable_iff: "catchable fid s = status_in fid [FAILED, TRANSCRIBED, AI_PROCESSED, APPROVED] s"
  by (auto simp: catchable_def status_in_def split: option.splits)

lemma settled_if_status_in:
  "status_in fid S s \<Longrightarrow> (\<And>x. x \<in> set S \<Longrightarrow> \<not> in_flight x) \<Longrightarrow> settled fid s"
  by (auto simp: settled_def status_in_def split: option.splits)

lemma settled_same_files: "files s' = files s \<Longrightarrow> settled fid s' = settled fid s"
  by (simp add: settled_def)

lemma catchable_same_files: "files s' = files s \<Longrightarrow> catchable fid s' = catchable fid s"
  by (simp add: catchable_def)

lemma settled_slot [simp]: "settled fid (setCurrentlyProcessing p s) = settled fid s"
  by (simp add: settled_def)

lemma settled_dequeue [simp]: "settled fid (removeFromQueue i s) = settled fid s"
  by (simp add: settled_def)

lemma catchable_slot [simp]: "catchable fid (setCurrentlyProcessing p s) = catchable fid s"
  by (simp add: catchable_def)

lemma phase_ok_none [simp]: "phase_ok fid ([], None) s"
  by (simp add: phase_ok_def)

lemma phase_ok_throw_only: "catchable fid s \<Longrightarrow> phase_ok fid ([], Some err) s"
  by (simp add: phase_ok_def)

lemma transcribe_thunk:
  assumes pre: "status_in fid [PENDING] s"
  shows "phase_ok fid (transcribeFile fid resp t0 t1) s"
proof (cases resp)
  case (Inl err)
  note a = ok_transcribeFile_pending [OF pre, of t0]
  note b = ok_transcribeFile_rejected [OF conjunct2 [OF a], of err t1]
  have c: "catchable fid (transcribeFile_rejected fid err t1 (transcribeFile_pending fid t0 s))"
    using conjunct2 [OF b] by (auto simp: catchable_iff intro: status_in_mono)
  have d: "settled fid (transcribeFile_rejected fid err t1 (transcribeFile_pending fid t0 s))"
    using conjunct2 [OF b] by (rule settled_if_status_in) (simp add: in_flight_def)
  show ?thesis
    using Inl a b c d by (simp add: phase_ok_def transcribeFile_def run_ok_Cons)
next
  case (Inr r)
  note a = ok_transcribeFile_pending [OF pre, of t0]
  note b = ok_transcribeFile_fulfilled [OF conjunct2 [OF a], of r t1]
  have d: "settled fid (transcribeFile_fulfilled fid r t1 (transcribeFile_pending fid t0 s))"
    using conjunct2 [OF b] by (rule settled_if_status_in) (simp add: in_flight_def)
  show ?thesis
    using Inr a b d by (simp add: phase_ok_def transcribeFile_def run_ok_Cons)
qed

lemma rewrite_thunk:
  assumes pre: "status_in fid [TRANSCRIBED] s"
  shows "phase_ok fid (processWithAI fid txt prompt key resp t0 t1) s"
proof (cases resp)
  case (Inl err)
  note a = ok_processWithAI_pending [OF pre, of t0]
  note b = ok_processWithAI_rejected [OF conjunct2 [OF a], of err t1]
  have c: "catchable fid (processWithAI_rejected fid err t1 (processWithAI_pending fid t0 s))"
    using conjunct2 [OF b] by (auto simp: catchable_iff intro: status_in_mono)
  have d: "settled fid (processWithAI_rejected fid err t1 (processWithAI_pending fid t0 s))"
    using conjunct2 [OF b] by (rule settled_if_status_in) (simp add: in_flight_def)
  show ?thesis
    using Inl a b c d by (simp add: phase_ok_def processWithAI_def run_ok_Cons)
next
  case (Inr c)
  note a = ok_processWithAI_pending [OF pre, of t0]
  note b = ok_processWithAI_fulfilled [OF conjunct2 [OF a], of "rewrite_of txt prompt c" t1]
  have d: "settled fid (processWithAI_fulfilled fid (rewrite_of txt prompt c) t1 (processWithAI_pending fid t0 s))"
    using conjunct2 [OF b] by (rule settled_if_status_in) (simp add: in_flight_def)
  show ?thesis
    using Inr a b d by (simp add: phase_ok_def processWithAI_def run_ok_Cons)
qed

lemma speech_thunk:
  assumes pre: "status_in fid [APPROVED, AI_PROCESSED] s"
  shows "phase_ok fid (generateSpeech fid txt vs resp t0 t1) s"
proof (cases resp)
  case (Inl err)
  note a = ok_generateSpeech_pending [OF pre, of t0]
  note b = ok_generateSpeech_rejected [OF conjunct2 [OF a], of err t1]
  have c: "catchable fid (generateSpeech_rejected fid err t1 (generateSpeech_pending fid t0 s))"
    using conjunct2 [OF b] by (auto simp: catchable_iff intro: status_in_mono)
  have d: "settled fid (generateSpeech_rejected fid err t1 (generateSpeech_pending fid t0 s))"
    using conjunct2 [OF b] by (rule settled_if_status_in) (simp add: in_flight_def)
  show ?thesis
    using Inl a b c d by (simp add: phase_ok_def generateSpeech_def run_ok_Cons)
next
  case (Inr au)
  note a = ok_generateSpeech_pending [OF pre, of t0]
  note b = ok_generateSpeech_fulfilled [OF conjunct2 [OF a], of "url au" "blob au" t1]
  have d: "settled fid (generateSpeech_fulfilled fid (url au) (blob au) t1 (generateSpeech_pending fid t0 s))"
    using conjunct2 [OF b] by (rule settled_if_status_in) (simp add: in_flight_def)
  show ?thesis
    using Inr a b d by (simp add: phase_ok_def generateSpeech_def run_ok_Cons)
qed

lemma step_transcription_phase:
  assumes "find_file fid (files s) = Some file"
  shows "phase_ok fid (step_transcription e fid file) s"
proof (cases "status file = PENDING")
  case True
  then have "status_in fid [PENDING] s" using assms by (simp add: status_in_def)
  then show ?thesis using True by (simp add: step_transcription_def transcribe_thunk)
next
  case False
  then show ?thesis by (simp add: step_transcription_def)
qed

lemma step_ai_phase: "phase_ok fid (step_ai cs e fid s) s"
proof (cases "find_file fid (files s)")
  case None
  then show ?thesis by (simp add: step_ai_def)
next
  case (Some freshFile)
  show ?thesis
  proof (cases "status freshFile = TRANSCRIBED")
    case False
    then show ?thesis using Some by (simp add: step_ai_def)
  next
    case True
    then have pre: "status_in fid [TRANSCRIBED] s" using Some by (simp add: status_in_def)
    have c: "catchable fid s" using Some True by (simp add: catchable_def)
    show ?thesis
      using Some True c rewrite_thunk [OF pre]
      by (simp add: step_ai_def Let_def phase_ok_throw_only)
  qed
qed

lemma step_speech_phase: "phase_ok fid (step_speech cs e fid s) s"
proof (cases "find_file fid (files s)")
  case None
  then have "catchable fid s" by (simp add: catchable_def)
  then show ?thesis using None by (simp add: step_speech_def phase_ok_throw_only)
next
  case (Some finalFile)
  show ?thesis
  proof (cases "batchReviewMode (globalSettings s) \<and> status finalFile = REVIEW_PENDING")
    case True
    have "phase_ok fid ([SetCurrentlyProcessing None, RemoveFromQueue fid], None) s"
      by (simp add: phase_ok_def run_ok_Cons engine_step_same_files)
    then show ?thesis using Some True by (simp add: step_speech_def)
  next
    case False
    show ?thesis
    proof (cases "status finalFile = APPROVED
                  \<or> (\<not> batchReviewMode (globalSettings s) \<and> status finalFile = AI_PROCESSED)")
      case go: True
      then have pre: "status_in fid [APPROVED, AI_PROCESSED] s"
        using Some by (auto simp: status_in_def)
      have c: "catchable fid s" using Some go by (auto simp: catchable_def)
      have nf: "(batchReviewMode (globalSettings s) \<and> status finalFile = REVIEW_PENDING) = False"
        using False by simp
      show ?thesis
        using Some go c speech_thunk [OF pre]
        by (simp add: step_speech_def phase_ok_throw_only nf)
    next
      case stop: False
      have nf: "(batchReviewMode (globalSettings s) \<and> status finalFile = REVIEW_PENDING) = False"
        using False by simp
      have ng: "(status finalFile = APPROVED
                  \<or> (\<not> batchReviewMode (globalSettings s) \<and> status finalFile = AI_PROCESSED)) = False"
        using stop by simp
      show ?thesis using Some by (simp add: step_speech_def nf ng)
    qed
  qed
qed

lemma phase_then:
  assumes p: "phase_ok fid r s"
      and q: "phase_ok fid r' (dispatch_all (fst r) s)"
  shows "phase_ok fid (fst r @ fst (if snd r = None then r' else ([], snd r)),
                       snd (if snd r = None then r' else ([], snd r))) s"
proof (cases "snd r = None")
  case True
  then show ?thesis
    using p q by (simp add: phase_ok_def run_ok_append dispatch_all_append)
next
  case False
  then show ?thesis
    using p by (cases r) (auto simp: phase_ok_def)
qed

lemma catch_phase:
  assumes p: "phase_ok fid r s"
  shows "run_ok fid (fst r @ (case snd r of None \<Rightarrow> [] | Some err \<Rightarrow> [MarkFileFailed fid (catch_message err) t])
                     @ [RemoveFromQueue fid, SetCurrentlyProcessing None]) s
       \<and> (if settled fid s
           then settled fid (dispatch_all (fst r @ (case snd r of None \<Rightarrow> [] | Some err \<Rightarrow> [MarkFileFailed fid (catch_message err) t])
                     @ [RemoveFromQueue fid, SetCurrentlyProcessing None]) s)
           else True)"
proof (cases "snd r")
  case None
  then show ?thesis
    using p by (simp add: phase_ok_def run_ok_append run_ok_Cons dispatch_all_append engine_step_same_files)
next
  case (Some err)
  let ?s3 = "dispatch_all (fst r) s"
  have c: "status_in fid [FAILED, TRANSCRIBED, AI_PROCESSED, APPROVED] ?s3"
    using p Some by (simp add: phase_ok_def catchable_iff)
  note m = ok_markFileFailed [OF c, of "catch_message err" t]
  have d: "settled fid (markFileFailed fid (catch_message err) t ?s3)"
    using conjunct2 [OF m] by (rule settled_if_status_in) (simp add: in_flight_def)
  show ?thesis
    using p Some m d
    by (simp add: phase_ok_def run_ok_append run_ok_Cons dispatch_all_append engine_step_same_files)
qed

lemma engine_run:
  "run_ok (hd (processingQueue s)) (processNextInQueue cs e s) s
   \<and> (if settled (hd (processingQueue s)) s
       then settled (hd (processingQueue s)) (dispatch_all (processNextInQueue cs e s) s)
       else True)"
proof -
  let ?fid = "hd (processingQueue s)"
  show ?thesis
  proof (cases "truthy (currentlyProcessing s) \<or> processingQueue s = []")
    case True
    then show ?thesis by (auto simp: processNextInQueue_def)
  next
    case go: False
    show ?thesis
    proof (cases "find_file ?fid (files s)")
      case None
      then show ?thesis
        using go by (simp add: processNextInQueue_def run_ok_Cons engine_step_same_files)
    next
      case (Some fl)
      show ?thesis
      proof (cases "batchReviewMode (globalSettings s) \<and> status fl = REVIEW_PENDING")
        case True
        then show ?thesis
          using go Some by (simp add: processNextInQueue_def run_ok_Cons engine_step_same_files)
      next
        case False
        define s0 where "s0 = setCurrentlyProcessing (Some ?fid) s"
        define r1 where "r1 = step_transcription e ?fid fl"
        define s1 where "s1 = dispatch_all (fst r1) s0"
        define r2 where "r2 = (if snd r1 = None then step_ai cs e ?fid s1 else ([], snd r1))"
        define s2 where "s2 = dispatch_all (fst r2) s1"
        define r3 where "r3 = (if snd r2 = None then step_speech cs e ?fid s2 else ([], snd r2))"
        define a4 where "a4 = (case snd r3 of None \<Rightarrow> []
                               | Some err \<Rightarrow> [MarkFileFailed ?fid (catch_message err) (clock e 6)])"
        have nf: "(batchReviewMode (globalSettings s) \<and> status fl = REVIEW_PENDING) = False"
          using False by simp
        have g0: "(truthy (currentlyProcessing s) \<or> processingQueue s = []) = False"
          using go by simp
        have acts: "processNextInQueue cs e s =
            SetCurrentlyProcessing (Some ?fid)
              # (fst r1 @ fst r2 @ fst r3) @ a4 @ [RemoveFromQueue ?fid, SetCurrentlyProcessing None]"
          unfolding processNextInQueue_def Let_def a4_def r3_def s2_def r2_def s1_def r1_def s0_def
          by (simp only: g0 if_False Some option.case nf append_Cons append_Nil
                dispatch_all.simps fileProcessingReducer.simps append_assoc)
        have f0: "find_file ?fid (files s0) = Some fl"
          using Some by (simp add: s0_def)
        have p1: "phase_ok ?fid r1 s0"
          unfolding r1_def using f0 by (rule step_transcription_phase)
        have p12: "phase_ok ?fid (fst r1 @ fst r2, snd r2) s0"
        proof -
          have q: "phase_ok ?fid (step_ai cs e ?fid s1) (dispatch_all (fst r1) s0)"
            using step_ai_phase [of ?fid cs e s1] by (simp add: s1_def)
          have eq: "(if snd r1 = None then step_ai cs e ?fid s1 else ([], snd r1)) = r2"
            by (simp add: r2_def)
          show ?thesis using phase_then [OF p1 q] unfolding eq by simp
        qed
        have s2': "s2 = dispatch_all (fst r1 @ fst r2) s0"
          by (simp add: s2_def s1_def dispatch_all_append)
        have p123: "phase_ok ?fid ((fst r1 @ fst r2) @ fst r3, snd r3) s0"
        proof -
          have q: "phase_ok ?fid (step_speech cs e ?fid s2) (dispatch_all (fst (fst r1 @ fst r2, snd r2)) s0)"
            using step_speech_phase [of ?fid cs e s2] by (simp add: s2')
          have eq: "(if snd (fst r1 @ fst r2, snd r2) = None then step_speech cs e ?fid s2
                     else ([], snd (fst r1 @ fst r2, snd r2))) = r3"
            by (simp add: r3_def)
          show ?thesis using phase_then [OF p12 q] unfolding eq by simp
        qed
        note c = catch_phase [OF p123, of "clock e 6", unfolded fst_conv snd_conv, folded a4_def]
        have e0: "engine_step ?fid s s0"
          by (simp add: s0_def engine_step_same_files)
        have red: "fileProcessingReducer (SetCurrentlyProcessing (Some ?fid)) s = s0"
          by (simp add: s0_def)
        have st0: "settled ?fid s0 = settled ?fid s"
          by (simp add: s0_def)
        show ?thesis
          unfolding acts run_ok_Cons dispatch_all.simps red
          using c e0 unfolding st0 append_assoc by (simp del: append_assoc)
      qed
    qed
  qed
qed

section \<open>Status edges\<close>

lemma edges_along:
  "successively (engine_step fid) xs \<Longrightarrow>
   successively (\<lambda>s s'. list_all2 (\<lambda>f f'. id_f f' = id_f f
        \<and> (status f' = status f \<or> engine_edge (status f) (status f'))) (files s) (files s')) xs"
proof (rule successively_mono [where P = "engine_step fid"])
  fix s s' assume "engine_step fid s s'"
  then have "list_all2 file_step (files s) (files s')" by (simp add: engine_step_def)
  then show "list_all2 (\<lambda>f f'. id_f f' = id_f f
        \<and> (status f' = status f \<or> engine_edge (status f) (status f'))) (files s) (files s')"
    by (rule list_all2_mono) (simp add: file_step_def)
qed

text \<open>
  C2, as the claim states it, fails. With no API key at all, the engine's run on a
  TRANSCRIBED file throws before the rewrite call is issued, and the catch block marks the
  file FAILED: the status goes from TRANSCRIBED, which is not an in-flight state, straight
  to FAILED. That is not an edge of the claim's list.
\<close>

theorem C2_counterexample_no_api_key:
  "map (map status \<circ> files)
      (ex_store [ex_transcribed ''1_0''] [''1_0'']
        # states_of (processNextInQueue no_key_cs sample_env (ex_store [ex_transcribed ''1_0''] [''1_0'']))
            (ex_store [ex_transcribed ''1_0''] [''1_0'']))
     = [[TRANSCRIBED], [TRANSCRIBED], [FAILED], [FAILED], [FAILED]]
   \<and> legal_edge TRANSCRIBED FAILED = False"
  by code_simp

text \<open>
  C2, amended. Between any two successive stores of a run of the queue engine, every record
  keeps its id and either keeps its status or moves along an edge of the state machine of
  section 4.2, or goes to FAILED from TRANSCRIBED, AI_PROCESSED or APPROVED (the engine
  could not issue the next stage call). No such edge skips a stage: PENDING to COMPLETED
  is not one. And \<open>retryFailedFiles\<close>, on records with pairwise different ids, changes the
  status of FAILED records only, to PENDING.
\<close>

theorem C2_engine_status_edges:
  "successively
     (\<lambda>s s'. list_all2 (\<lambda>f f'. id_f f' = id_f f
                 \<and> (status f' = status f \<or> engine_edge (status f) (status f')))
               (files s) (files s'))
     (s # states_of (processNextInQueue cs e s) s)
   \<and> engine_edge PENDING COMPLETED = False
   \<and> (if distinct (map id_f (files s))
       then list_all2 (\<lambda>f f'. id_f f' = id_f f
                 \<and> (status f' = status f \<or> (status f = FAILED \<and> status f' = PENDING)))
               (files s) (files (snd (retryFailedFiles s)))
       else True)"
proof -
  have a: "successively
     (\<lambda>s s'. list_all2 (\<lambda>f f'. id_f f' = id_f f
                 \<and> (status f' = status f \<or> engine_edge (status f) (status f')))
               (files s) (files s'))
     (s # states_of (processNextInQueue cs e s) s)"
  proof -
    have "successively (engine_step (hd (processingQueue s))) (s # states_of (processNextInQueue cs e s) s)"
      using engine_run [of s cs e] by (simp add: run_ok_def)
    then show ?thesis by (rule edges_along)
  qed
  have b: "engine_edge PENDING COMPLETED = False"
    by (simp add: engine_edge_def legal_edge_def in_flight_def)
  have c: "list_all2 (\<lambda>f f'. id_f f' = id_f f
                 \<and> (status f' = status f \<or> (status f = FAILED \<and> status f' = PENDING)))
               (files s) (files (snd (retryFailedFiles s)))"
    if d: "distinct (map id_f (files s))"
    unfolding retry_result [OF d] by (simp add: list_all2_map2 list_all2_refl)
  show ?thesis using a b c by simp
qed

theorem C2_engine_status_edges_witness:
  "map (map status \<circ> files)
      (ex_store [ex_file ''1_0'' PENDING 0] [''1_0'']
        # states_of (processNextInQueue sample_cs sample_env (ex_store [ex_file ''1_0'' PENDING 0] [''1_0'']))
            (ex_store [ex_file ''1_0'' PENDING 0] [''1_0'']))
     = [[PENDING], [PENDING], [TRANSCRIBING], [TRANSCRIBED], [AI_PROCESSING], [AI_PROCESSED],
        [GENERATING_SPEECH], [COMPLETED], [COMPLETED], [COMPLETED]]
   \<and> successively
     (\<lambda>s s'. list_all2 (\<lambda>f f'. id_f f' = id_f f
                 \<and> (status f' = status f \<or> engine_edge (status f) (status f')))
               (files s) (files s'))
     (ex_store [ex_file ''1_0'' PENDING 0] [''1_0'']
        # states_of (processNextInQueue sample_cs sample_env (ex_store [ex_file ''1_0'' PENDING 0] [''1_0'']))
            (ex_store [ex_file ''1_0'' PENDING 0] [''1_0'']))
   \<and> distinct (map id_f (files (ex_store [ex_failed] [])))
   \<and> map status (files (snd (retryFailedFiles (ex_store [ex_failed] [])))) = [PENDING]"
proof -
  have m: "map (map status \<circ> files)
      (ex_store [ex_file ''1_0'' PENDING 0] [''1_0'']
        # states_of (processNextInQueue sample_cs sample_env (ex_store [ex_file ''1_0'' PENDING 0] [''1_0'']))
            (ex_store [ex_file ''1_0'' PENDING 0] [''1_0'']))
     = [[PENDING], [PENDING], [TRANSCRIBING], [TRANSCRIBED], [AI_PROCESSING], [AI_PROCESSED],
        [GENERATING_SPEECH], [COMPLETED], [COMPLETED], [COMPLETED]]"
    by code_simp
  have d: "distinct (map id_f (files (ex_store [ex_failed] [])))"
    by (simp add: ex_store_def)
  have r: "map status (files (snd (retryFailedFiles (ex_store [ex_failed] [])))) = [PENDING]"
    by code_simp
  show ?thesis
    using m d r
      C2_engine_status_edges [of "ex_store [ex_file ''1_0'' PENDING 0] [''1_0'']" sample_cs sample_env]
    by simp
qed

section \<open>Progress\<close>

lemma progress_along:
  "successively (engine_step fid) (s # xs) \<Longrightarrow> list_all within_band (files s) \<Longrightarrow>
   successively (\<lambda>s s'. list_all2 (\<lambda>f f'. id_f f' = id_f f \<and> progress f \<le> progress f')
                   (files s) (files s')) (s # xs)
   \<and> (\<forall>s' \<in> set xs. list_all within_band (files s'))"
proof (induction xs arbitrary: s)
  case Nil
  then show ?case by simp
next
  case (Cons x xs)
  have st: "list_all2 file_step (files s) (files x)"
    using Cons.prems(1) by (simp add: engine_step_def)
  have mono: "list_all2 (\<lambda>f f'. id_f f' = id_f f \<and> progress f \<le> progress f') (files s) (files x)"
    using st Cons.prems(2)
    by (auto simp: list_all2_conv_all_nth list_all_length file_step_def)
  have band: "list_all within_band (files x)"
    using st Cons.prems(2)
    by (auto simp: list_all2_conv_all_nth list_all_length file_step_def)
  have rest: "successively (engine_step fid) (x # xs)"
    using Cons.prems(1) by simp
  show ?case
    using Cons.IH [OF rest band] mono band by simp
qed

text \<open>
  C3, as the claim states it, fails: \<open>retryFailedFiles\<close> resets the progress of a FAILED
  file to 0. Here a file that failed in the rewrite stage, with progress 33, is retried.
\<close>

theorem C3_counterexample_retry:
  "map progress (files (ex_store [ex_failed] [])) = [33]
   \<and> map progress (files (snd (retryFailedFiles (ex_store [ex_failed] [])))) = [0]"
  by code_simp

text \<open>
  C3, amended. On a store whose records have their progress within the band of their
  status (at most 33 in PENDING and TRANSCRIBING, at most 66 in TRANSCRIBED and
  AI_PROCESSING, at most 100 otherwise), no dispatch of a run of the queue engine lowers
  the progress of any record, and every store of the run keeps the progress within the
  bands. The operation that lowers progress is the retry, which resets it to 0.
\<close>

theorem C3_engine_progress_monotone:
  assumes "list_all within_band (files s)"
  shows "successively
           (\<lambda>s s'. list_all2 (\<lambda>f f'. id_f f' = id_f f \<and> progress f \<le> progress f')
                      (files s) (files s'))
           (s # states_of (processNextInQueue cs e s) s)
       \<and> (\<forall>s' \<in> set (states_of (processNextInQueue cs e s) s). list_all within_band (files s'))"
proof -
  have "successively (engine_step (hd (processingQueue s))) (s # states_of (processNextInQueue cs e s) s)"
    using engine_run [of s cs e] by (simp add: run_ok_def)
  then show ?thesis using assms by (rule progress_along)
qed

theorem C3_engine_progress_monotone_witness:
  "list_all within_band (files (ex_store [ex_file ''1_0'' PENDING 0] [''1_0'']))
   \<and> map (map progress \<circ> files)
      (ex_store [ex_file ''1_0'' PENDING 0] [''1_0'']
        # states_of (processNextInQueue sample_cs sample_env (ex_store [ex_file ''1_0'' PENDING 0] [''1_0'']))
            (ex_store [ex_file ''1_0'' PENDING 0] [''1_0'']))
     = [[0], [0], [0], [33], [33], [66], [66], [100], [100], [100]]
   \<and> successively
           (\<lambda>s s'. list_all2 (\<lambda>f f'. id_f f' = id_f f \<and> progress f \<le> progress f')
                      (files s) (files s'))
           (ex_store [ex_file ''1_0'' PENDING 0] [''1_0'']
             # states_of (processNextInQueue sample_cs sample_env (ex_store [ex_file ''1_0'' PENDING 0] [''1_0'']))
                 (ex_store [ex_file ''1_0'' PENDING 0] [''1_0'']))"
proof -
  have h: "list_all within_band (files (ex_store [ex_file ''1_0'' PENDING 0] [''1_0'']))"
    by code_simp
  have m: "map (map progress \<circ> files)
      (ex_store [ex_file ''1_0'' PENDING 0] [''1_0'']
        # states_of (processNextInQueue sample_cs sample_env (ex_store [ex_file ''1_0'' PENDING 0] [''1_0'']))
            (ex_store [ex_file ''1_0'' PENDING 0] [''1_0'']))
     = [[0], [0], [0], [33], [33], [66], [66], [100], [100], [100]]"
    by code_simp
  show ?thesis
    using h m C3_engine_progress_monotone [OF h, of sample_cs sample_env] by simp
qed

section \<open>Single flight\<close>



lemma others_idle_Nil [simp]: "others_idle fid []"
  by (simp add: others_idle_def)









section \<open>Bulk export\<close>



section \<open>Approval\<close>

lemma approveFile_pending:
  assumes f: "find_file fid (files s) = Some f" and st: "status f = REVIEW_PENDING"
  shows "map_option status (find_file fid (files (approveFile fid s))) = Some APPROVED
       \<and> fid \<notin> set (reviewQueue (approveFile fid s))
       \<and> fid \<in> set (approvedFiles (approveFile fid s))
       \<and> fid \<in> set (processingQueue (approveFile fid s))"
proof -
  have idf: "id_f f = fid" using f by (rule find_file_id)
  have "find_file fid (update_file fid (\<lambda>x. x\<lparr> status := APPROVED \<rparr>) (files s))
          = Some (f\<lparr> status := APPROVED \<rparr>)"
    using f idf by (simp add: find_update_same)
  then show ?thesis using f st by (simp add: approveFile_def)
qed

text \<open>
  C4. For a file whose status is REVIEW_PENDING, approving it, by the reducer \<open>approveFile\<close>
  alone and by the review modal's \<open>handleApprove\<close> (with any edited text), leaves the file
  APPROVED, its id absent from the review queue, and its id present among the approved
  files and in the processing queue.
\<close>

theorem C4_approve:
  assumes f: "find_file fid (files s) = Some f" and st: "status f = REVIEW_PENDING"
  shows "map_option status (find_file fid (files (approveFile fid s))) = Some APPROVED
       \<and> fid \<notin> set (reviewQueue (approveFile fid s))
       \<and> fid \<in> set (approvedFiles (approveFile fid s))
       \<and> fid \<in> set (processingQueue (approveFile fid s))
       \<and> map_option status (find_file fid (files (handleApprove fid edited s))) = Some APPROVED
       \<and> fid \<notin> set (reviewQueue (handleApprove fid edited s))
       \<and> fid \<in> set (approvedFiles (handleApprove fid edited s))
       \<and> fid \<in> set (processingQueue (handleApprove fid edited s))"
proof -
  note a = approveFile_pending [OF f st]
  define s1 where "s1 = (if Some edited \<noteq> editableAIResult f
                         then updateEditableAIResult fid edited s else s)"
  have h: "handleApprove fid edited s = removeFromReviewQueue fid (approveFile fid s1)"
    using f by (simp add: handleApprove_def s1_def)
  have f1: "\<exists>f'. find_file fid (files s1) = Some f' \<and> status f' = REVIEW_PENDING"
  proof (cases "Some edited \<noteq> editableAIResult f")
    case True
    have "find_file fid (files (updateEditableAIResult fid edited s))
            = Some (f\<lparr> editableAIResult := Some edited \<rparr>)"
      unfolding updateEditableAIResult_def using f by (simp add: find_with_file)
    then show ?thesis using True st by (simp add: s1_def)
  next
    case False
    then show ?thesis using f st by (simp add: s1_def)
  qed
  then obtain f' where f': "find_file fid (files s1) = Some f'" and st': "status f' = REVIEW_PENDING"
    by blast
  note b = approveFile_pending [OF f' st']
  have c: "map_option status (find_file fid (files (handleApprove fid edited s))) = Some APPROVED
       \<and> fid \<notin> set (reviewQueue (handleApprove fid edited s))
       \<and> fid \<in> set (approvedFiles (handleApprove fid edited s))
       \<and> fid \<in> set (processingQueue (handleApprove fid edited s))"
    unfolding h using b by (simp add: removeFromReviewQueue_def)
  show ?thesis using a c by (intro conjI) simp_all
qed

theorem C4_approve_witness:
  "status (ex_rewritten ''1_0'' REVIEW_PENDING) = REVIEW_PENDING
   \<and> map status (files (handleApprove ''1_0'' ''Better text.''
        ((ex_store [ex_rewritten ''1_0'' REVIEW_PENDING] [])\<lparr> reviewQueue := [''1_0''] \<rparr>))) = [APPROVED]
   \<and> ''1_0'' \<notin> set (reviewQueue (handleApprove ''1_0'' ''Better text.''
        ((ex_store [ex_rewritten ''1_0'' REVIEW_PENDING] [])\<lparr> reviewQueue := [''1_0''] \<rparr>)))
   \<and> ''1_0'' \<in> set (approvedFiles (handleApprove ''1_0'' ''Better text.''
        ((ex_store [ex_rewritten ''1_0'' REVIEW_PENDING] [])\<lparr> reviewQueue := [''1_0''] \<rparr>)))
   \<and> ''1_0'' \<in> set (processingQueue (handleApprove ''1_0'' ''Better text.''
        ((ex_store [ex_rewritten ''1_0'' REVIEW_PENDING] [])\<lparr> reviewQueue := [''1_0''] \<rparr>)))"
proof -
  let ?s = "(ex_store [ex_rewritten ''1_0'' REVIEW_PENDING] [])\<lparr> reviewQueue := [''1_0''] \<rparr>"
  have h1: "find_file ''1_0'' (files ?s) = Some (ex_rewritten ''1_0'' REVIEW_PENDING)"
    by (simp add: ex_store_def find_file_def ex_rewritten_def ex_file_def)
  have h2: "status (ex_rewritten ''1_0'' REVIEW_PENDING) = REVIEW_PENDING"
    by (simp add: ex_rewritten_def ex_file_def)
  have m: "map status (files (handleApprove ''1_0'' ''Better text.'' ?s)) = [APPROVED]"
    by code_simp
  note th = C4_approve [OF h1 h2, of "''Better text.''"]
  show ?thesis
    using h2 m
      th [THEN conjunct2, THEN conjunct2, THEN conjunct2, THEN conjunct2, THEN conjunct2, THEN conjunct1]
      th [THEN conjunct2, THEN conjunct2, THEN conjunct2, THEN conjunct2, THEN conjunct2, THEN conjunct2, THEN conjunct1]
      th [THEN conjunct2, THEN conjunct2, THEN conjunct2, THEN conjunct2, THEN conjunct2, THEN conjunct2, THEN conjunct2]
    by (intro conjI)
qed

section \<open>A stage failure is recorded twice\<close>

text \<open>
  X1. When the transcription call fails for the PENDING file at the head of the queue, the
  run of the engine counts the failure twice: the \<open>rejected\<close> handler and the catch block's
  \<open>markFileFailed\<close> each add one to \<open>statistics.failedFiles\<close>.
\<close>

theorem X1_failure_counted_twice:
  assumes slot: "\<not> truthy (currentlyProcessing s)"
      and q: "processingQueue s = fid # rest"
      and f: "find_file fid (files s) = Some f"
      and st: "status f = PENDING"
      and fail: "transcribe_response e = Inl err"
  shows "failedFiles (statistics (dispatch_all (processNextInQueue cs e s) s))
           = failedFiles (statistics s) + 2"
proof -
  have idf: "id_f f = fid" using f by (rule find_file_id)
  let ?g1 = "\<lambda>x. x\<lparr> status := TRANSCRIBING,
                    timestamps := (timestamps x)\<lparr> transcriptionStart := Some (clock e 0) \<rparr> \<rparr>"
  let ?g2 = "\<lambda>x. x\<lparr> status := FAILED,
                    errors := errors x @ [\<lparr> stage = Some ''transcription'', message = err, timestamp = clock e 1 \<rparr>] \<rparr>"
  let ?s0 = "setCurrentlyProcessing (Some fid) s"
  have f0: "find_file fid (files ?s0) = Some f" using f by simp
  have s1: "transcribeFile_pending fid (clock e 0) ?s0 = ?s0\<lparr> files := update_file fid ?g1 (files ?s0) \<rparr>"
    using f0 by (simp add: transcribeFile_pending_def with_file_found)
  let ?s1 = "?s0\<lparr> files := update_file fid ?g1 (files ?s0) \<rparr>"
  have f1: "find_file fid (files ?s1) = Some (?g1 f)"
    using f idf by (simp add: find_update_same)
  have s2: "transcribeFile_rejected fid err (clock e 1) ?s1
              = count_failed (?s1\<lparr> files := update_file fid ?g2 (files ?s1) \<rparr>)"
    using f1 unfolding transcribeFile_rejected_def by (rule with_file_found)
  let ?s2 = "count_failed (?s1\<lparr> files := update_file fid ?g2 (files ?s1) \<rparr>)"
  have f2: "find_file fid (files ?s2) = Some (?g2 (?g1 f))"
    using f1 idf by (simp add: find_update_same)
  have s3: "markFileFailed fid ''Unknown error occurred'' (clock e 6) ?s2
              = count_failed (?s2\<lparr> files := update_file fid
                   (\<lambda>x. x\<lparr> status := FAILED,
                           errors := errors x @ [\<lparr> stage = None, message = ''Unknown error occurred'',
                                                   timestamp = clock e 6 \<rparr>] \<rparr>) (files ?s2) \<rparr>)"
    using f2 unfolding markFileFailed_def by (rule with_file_found)
  show ?thesis
    unfolding engine_actions_transcribe_fail [OF assms]
    by (simp only: dispatch_all.simps fileProcessingReducer.simps s1 s2 s3)
       (simp add: count_failed_def setCurrentlyProcessing_def removeFromQueue_def)
qed

theorem X1_failure_counted_twice_witness:
  "failedFiles (statistics (dispatch_all
      (processNextInQueue sample_cs (sample_env\<lparr> transcribe_response := Inl ''HTTP error! status: 500'' \<rparr>)
         (ex_store [ex_file ''1_0'' PENDING 0] [''1_0'']))
      (ex_store [ex_file ''1_0'' PENDING 0] [''1_0'']))) = 2"
proof -
  let ?s = "ex_store [ex_file ''1_0'' PENDING 0] [''1_0'']"
  let ?e = "sample_env\<lparr> transcribe_response := Inl ''HTTP error! status: 500'' \<rparr>"
  have h1: "\<not> truthy (currentlyProcessing ?s)"
    by (simp add: ex_store_def initialState_def truthy_def)
  have h2: "processingQueue ?s = ''1_0'' # []"
    by (simp add: ex_store_def)
  have h3: "find_file ''1_0'' (files ?s) = Some (ex_file ''1_0'' PENDING 0)"
    by (simp add: ex_store_def find_file_def ex_file_def)
  have h4: "status (ex_file ''1_0'' PENDING 0) = PENDING"
    by (simp add: ex_file_def)
  have h5: "transcribe_response ?e = Inl ''HTTP error! status: 500''"
    by simp
  have z: "failedFiles (statistics ?s) = 0"
    by (simp add: ex_store_def initialState_def)
  show ?thesis
    using X1_failure_counted_twice [OF h1 h2 h3 h4 h5, of sample_cs] unfolding z by simp
qed

section \<open>Enqueue idempotence\<close>

lemma count_list_distinct: "distinct xs \<Longrightarrow> x \<in> set xs \<Longrightarrow> count_list xs x = 1"
  by (induction xs) (auto simp: count_list_0_iff)

text \<open>
  X2. Enqueueing an id twice leaves it in the processing queue as often as enqueueing it
  once: the second \<open>addToQueue\<close> changes nothing, and if the queue had no duplicates
  before, the id is in it exactly once.
\<close>

theorem X2_enqueue_idempotent:
  "addToQueue [fid] (addToQueue [fid] s) = addToQueue [fid] s
   \<and> (if distinct (processingQueue s)
       then count_list (processingQueue (addToQueue [fid] (addToQueue [fid] s))) fid = 1
       else True)"
proof -
  have a: "addToQueue [fid] (addToQueue [fid] s) = addToQueue [fid] s"
    by (simp add: addToQueue_def)
  have b: "count_list (processingQueue (addToQueue [fid] s)) fid = 1" if d: "distinct (processingQueue s)"
  proof (cases "fid \<in> set (processingQueue s)")
    case True
    then show ?thesis using d by (simp add: addToQueue_def count_list_distinct)
  next
    case False
    then show ?thesis by (simp add: addToQueue_def count_list_0_iff)
  qed
  show ?thesis using a b by simp
qed

theorem X2_enqueue_idempotent_witness:
  "processingQueue (addToQueue [''1_1''] (addToQueue [''1_1''] (ex_store [] [''1_0'']))) = [''1_0'', ''1_1'']
   \<and> count_list (processingQueue (addToQueue [''1_1''] (addToQueue [''1_1''] (ex_store [] [''1_0''])))) ''1_1'' = 1"
proof -
  have d: "distinct (processingQueue (ex_store [] [''1_0'']))" by (simp add: ex_store_def)
  have q: "processingQueue (addToQueue [''1_1''] (addToQueue [''1_1''] (ex_store [] [''1_0''])))
             = [''1_0'', ''1_1'']"
    by (simp add: addToQueue_def ex_store_def)
  show ?thesis
    using q d X2_enqueue_idempotent [of "''1_1''" "ex_store [] [''1_0'']", THEN conjunct2]
    by (simp only: if_True simp_thms)
qed

end
